theory Spec2Isabelle
  imports Main "HOL-Library.Word"
begin

section \<open>memray tracking API: NativeTrace and the Tracker entry points\<close>

text \<open>
  A shallow embedding of \<^verbatim>\<open>src/memray/_memray/tracking_api.h\<close>. The class
  \<^verbatim>\<open>NativeTrace\<close> is embedded in full (constructor, \<^verbatim>\<open>begin\<close>, \<^verbatim>\<open>end\<close>,
  \<^verbatim>\<open>operator[]\<close>, \<^verbatim>\<open>size\<close>, \<^verbatim>\<open>fill\<close>, \<^verbatim>\<open>unwind\<close>, \<^verbatim>\<open>exact_unwind\<close>); of
  the class \<^verbatim>\<open>Tracker\<close> the header defines the five static forwarding functions, which are
  embedded from it, and only declares the rest.
\<close>

subsection \<open>Machine types\<close>

text \<open>
  \<^verbatim>\<open>size_t\<close> is an unsigned 64-bit integer: \<open>+\<close>, \<open>-\<close> and \<open>*\<close> wrap around.
  \<^verbatim>\<open>frame_id_t\<close> (and so \<^verbatim>\<open>NativeTrace::ip_t\<close>) is declared in \<^verbatim>\<open>records.h\<close>,
  which the header includes; the vector is filled from \<^verbatim>\<open>unw_word_t\<close> values and
  \<^verbatim>\<open>(void**)\<close> casts of its storage, so it is taken as a 64-bit word as well.
  The C type \<^verbatim>\<open>int\<close> is modelled by \<open>int\<close> with the two conversions written out.
\<close>

type_synonym size_t = "64 word"
type_synonym ip_t = "64 word"

definition int_of_size_t :: "size_t \<Rightarrow> int" where
  \<comment> \<open>\<^verbatim>\<open>size_t\<close> passed where an \<^verbatim>\<open>int\<close> is expected: the low 32 bits, read as two's complement\<close>
  "int_of_size_t x = sint (ucast x :: 32 word)"

definition size_t_of_int :: "int \<Rightarrow> size_t" where
  \<comment> \<open>\<^verbatim>\<open>int\<close> stored into a \<^verbatim>\<open>size_t\<close>: the value modulo \<open>2 ^ 64\<close>\<close>
  "size_t_of_int i = word_of_int i"

subsection \<open>The unwinding facility (libunwind)\<close>

text \<open>
  libunwind is not part of the repository; what it answers is a parameter of the model.
  \<^item> \<open>backtrace_ips\<close>: the return addresses \<^verbatim>\<open>unw_backtrace\<close> finds, callee first.
    \<^verbatim>\<open>unw_backtrace(buffer, size)\<close> stores at most \<^verbatim>\<open>size\<close> of them and returns how many
    it stored.
  \<^item> \<open>getcontext_rc\<close>, \<open>init_local_rc\<close>: the return codes of \<^verbatim>\<open>unw_getcontext\<close> and
    \<^verbatim>\<open>unw_init_local\<close>.
  \<^item> \<open>cursor\<close>: the answers along a cursor walk. At each frame \<^verbatim>\<open>unw_get_reg\<close> yields
    an instruction pointer or fails (\<open>None\<close>, a negative return code), and
    \<^verbatim>\<open>unw_step\<close> returns non-zero (\<open>Step\<close>) or zero (\<open>End\<close>); the source tests the
    result of \<^verbatim>\<open>unw_step\<close> for being non-zero only.
  Nothing relates \<open>backtrace_ips\<close> to \<open>cursor\<close>.
\<close>

datatype unw_cursor = End "ip_t option" | Step "ip_t option" unw_cursor

record unw_platform =
  backtrace_ips :: "ip_t list"
  getcontext_rc :: int
  init_local_rc :: int
  cursor :: unw_cursor

definition unw_backtrace :: "unw_platform \<Rightarrow> int \<Rightarrow> ip_t list" where
  "unw_backtrace env n = take (nat n) (backtrace_ips env)"

text \<open>
  The instruction pointers along a walk on which \<^verbatim>\<open>unw_get_reg\<close> never fails, innermost
  frame first; \<open>None\<close> when it fails at some frame.
\<close>

fun cursor_ips :: "unw_cursor \<Rightarrow> ip_t list option" where
  "cursor_ips (End None) = None"
| "cursor_ips (End (Some ip)) = Some [ip]"
| "cursor_ips (Step None c) = None"
| "cursor_ips (Step (Some ip) c) = map_option ((#) ip) (cursor_ips c)"

text \<open>The calls made to libunwind are recorded in the order they are made.\<close>

datatype unw_call =
  Call_backtrace int | Call_getcontext | Call_init_local | Call_get_reg | Call_step

subsection \<open>State\<close>

text \<open>
  \<open>MAX_SIZE\<close> is the \<^verbatim>\<open>static thread_local\<close> member: one value per thread, shared by
  every \<^verbatim>\<open>NativeTrace\<close> object of the thread. \<open>cerr\<close> holds the lines written to
  \<^verbatim>\<open>std::cerr\<close>.
\<close>

record thread_ctx =
  MAX_SIZE :: size_t
  cerr :: "string list"
  unw_calls :: "unw_call list"

record NativeTrace =
  d_size :: size_t
  d_skip :: size_t
  d_data :: "ip_t list"

datatype fault = BufferOverrun | OutOfBounds

definition resize :: "nat \<Rightarrow> ip_t list \<Rightarrow> ip_t list" where
  \<comment> \<open>\<^verbatim>\<open>std::vector::resize\<close>: truncate, or append value-initialised elements\<close>
  "resize n xs = take n xs @ replicate (n - length xs) 0"

definition NativeTrace_init :: "thread_ctx \<Rightarrow> NativeTrace" where
  \<comment> \<open>the constructor: \<^verbatim>\<open>d_size = 0\<close>, \<^verbatim>\<open>d_skip = 0\<close>, \<^verbatim>\<open>d_data.resize(MAX_SIZE)\<close>\<close>
  "NativeTrace_init w = \<lparr>d_size = 0, d_skip = 0, d_data = resize (unat (MAX_SIZE w)) []\<rparr>"

subsection \<open>Capturing\<close>

text \<open>
  \<^verbatim>\<open>unwind(data)\<close>: \<^verbatim>\<open>unw_backtrace((void**)data, MAX_SIZE)\<close>. The buffer is the storage
  of \<open>d_data\<close>; storing more addresses than it has elements is a \<open>BufferOverrun\<close>.
  The result is the \<^verbatim>\<open>int\<close> returned, the context and the buffer.
\<close>

definition unwind :: "unw_platform \<Rightarrow> thread_ctx \<Rightarrow> ip_t list \<Rightarrow> fault + (int \<times> thread_ctx \<times> ip_t list)" where
  "unwind env w buf =
     (let n = int_of_size_t (MAX_SIZE w);
          ips = unw_backtrace env n;
          w' = w\<lparr>unw_calls := unw_calls w @ [Call_backtrace n]\<rparr>
      in if length ips \<le> length buf
         then Inr (int (length ips), w', ips @ drop (length ips) buf)
         else Inl BufferOverrun)"

text \<open>
  The \<^verbatim>\<open>do ... while (unw_step(&cursor))\<close> loop of \<^verbatim>\<open>exact_unwind\<close>. The result is
  \<open>(ok, calls, lines, data)\<close>: \<open>ok\<close> is false when \<^verbatim>\<open>unw_get_reg\<close> failed (the early
  \<^verbatim>\<open>return 0\<close>), \<open>calls\<close> and \<open>lines\<close> are the libunwind calls made and the lines
  written to \<^verbatim>\<open>std::cerr\<close>, \<open>data\<close> is \<open>d_data\<close> afterwards.
\<close>

fun walk :: "unw_cursor \<Rightarrow> ip_t list \<Rightarrow> bool \<times> unw_call list \<times> string list \<times> ip_t list" where
  "walk (End None) d = (False, [Call_get_reg], [''WARNING: Failed to get instruction pointer''], d)"
| "walk (End (Some ip)) d = (True, [Call_get_reg, Call_step], [], d @ [ip])"
| "walk (Step None c) d = (False, [Call_get_reg], [''WARNING: Failed to get instruction pointer''], d)"
| "walk (Step (Some ip) c) d =
     (case walk c (d @ [ip]) of (ok, calls, lines, d') \<Rightarrow> (ok, Call_get_reg # Call_step # calls, lines, d'))"

text \<open>
  \<^verbatim>\<open>exact_unwind()\<close>: the \<^verbatim>\<open>size_t\<close> returned, the context and \<open>d_data\<close>. The
  value returned depends on the answers of libunwind and on \<open>d_data\<close> only, not on the
  context.
\<close>

definition exact_unwind :: "unw_platform \<Rightarrow> thread_ctx \<Rightarrow> ip_t list \<Rightarrow> size_t \<times> thread_ctx \<times> ip_t list" where
  "exact_unwind env w d =
     (let w1 = w\<lparr>unw_calls := unw_calls w @ [Call_getcontext]\<rparr> in
      if getcontext_rc env < 0
      then (0, w1\<lparr>cerr := cerr w1 @ [''WARNING: Failed to initialize libunwind's context'']\<rparr>, d)
      else
        let w2 = w1\<lparr>unw_calls := unw_calls w1 @ [Call_init_local]\<rparr> in
        if init_local_rc env < 0
        then (0, w2\<lparr>cerr := cerr w2 @ [''WARNING: Failed to initialize libunwind's cursor'']\<rparr>, d)
        else
          (case walk (cursor env) d of (ok, calls, lines, d') \<Rightarrow>
             let w3 = w2\<lparr>unw_calls := unw_calls w2 @ calls, cerr := cerr w2 @ lines\<rparr>
             in if ok then (of_nat (length d'), w3, d') else (0, w3, d')))"

text \<open>
  \<^verbatim>\<open>fill(skip)\<close> up to and including the \<^verbatim>\<open>if (size == MAX_SIZE)\<close> block: the value of
  the local \<^verbatim>\<open>size\<close> (here \<open>sz\<close>) after it, the context and the object.
\<close>

definition fill_unwind :: "unw_platform \<Rightarrow> thread_ctx \<Rightarrow> NativeTrace \<Rightarrow> fault + (size_t \<times> thread_ctx \<times> NativeTrace)" where
  "fill_unwind env w t =
     (case unwind env w (d_data t) of
        Inl e \<Rightarrow> Inl e
      | Inr (rc, w1, buf) \<Rightarrow>
          let sz = size_t_of_int rc in
          if sz = MAX_SIZE w1
          then
            (case exact_unwind env w1 (resize 0 buf) of (sz', w2, d) \<Rightarrow>
               let m = (if MAX_SIZE w2 * 2 > sz' then MAX_SIZE w2 * 2 else sz')
               in Inr (sz', w2\<lparr>MAX_SIZE := m\<rparr>, t\<lparr>d_data := resize (unat m) d\<rparr>))
          else Inr (sz, w1, t\<lparr>d_data := buf\<rparr>))"

text \<open>
  \<^verbatim>\<open>fill(skip)\<close>: the \<^verbatim>\<open>bool\<close> returned, the context and the object. Running out of
  memory in \<^verbatim>\<open>resize\<close> or \<^verbatim>\<open>emplace_back\<close> is not modelled.
\<close>

definition fill :: "unw_platform \<Rightarrow> size_t \<Rightarrow> thread_ctx \<Rightarrow> NativeTrace \<Rightarrow> fault + (bool \<times> thread_ctx \<times> NativeTrace)" where
  "fill env skip w t =
     (case fill_unwind env w t of
        Inl e \<Rightarrow> Inl e
      | Inr (sz, w', t') \<Rightarrow>
          let t'' = t'\<lparr>d_size := (if sz > skip then sz - skip else 0), d_skip := skip\<rparr>
          in Inr (d_size t'' > 0, w', t''))"

subsection \<open>Reading a capture\<close>

text \<open>\<^verbatim>\<open>size()\<close> returns \<^verbatim>\<open>d_size\<close> as an \<^verbatim>\<open>int\<close>.\<close>

definition size_NT :: "NativeTrace \<Rightarrow> int" where
  "size_NT t = int_of_size_t (d_size t)"

text \<open>
  \<^verbatim>\<open>operator[](i)\<close>: \<^verbatim>\<open>d_data[d_skip + d_size - 1 - i]\<close>, the index computed in
  \<^verbatim>\<open>size_t\<close>; an index outside the vector is \<open>OutOfBounds\<close>.
\<close>

definition index_NT :: "NativeTrace \<Rightarrow> size_t \<Rightarrow> fault + ip_t" where
  "index_NT t i =
     (let j = unat (d_skip t + d_size t - 1 - i)
      in if j < length (d_data t) then Inr (d_data t ! j) else Inl OutOfBounds)"

text \<open>
  \<^verbatim>\<open>begin()\<close> and \<^verbatim>\<open>end()\<close> are reverse iterators; each is modelled by the offset of
  its base iterator from \<^verbatim>\<open>d_data.begin()\<close>.
\<close>

definition begin_NT :: "NativeTrace \<Rightarrow> nat" where
  "begin_NT t = unat (d_skip t) + unat (d_size t)"

definition end_NT :: "NativeTrace \<Rightarrow> nat" where
  "end_NT t = unat (d_skip t)"

text \<open>
  The traversal \<^verbatim>\<open>for (it = first; it != last; ++it) visit(*it)\<close> over reverse iterators
  with base offsets \<open>b\<close> and \<open>e\<close>: dereferencing reads the element before the base,
  incrementing moves the base down by one.
\<close>

function traverse :: "ip_t list \<Rightarrow> nat \<Rightarrow> nat \<Rightarrow> fault + ip_t list" where
  "traverse d b e =
     (if b = e then Inr []
      else if b = 0 \<or> b > length d then Inl OutOfBounds
      else (case traverse d (b - 1) e of Inl f \<Rightarrow> Inl f | Inr xs \<Rightarrow> Inr (d ! (b - 1) # xs)))"
  by pat_completeness auto
termination
  by (relation "measure (\<lambda>(d, b, e). b)") auto

declare traverse.simps [simp del]

definition frames :: "NativeTrace \<Rightarrow> fault + ip_t list" where
  \<comment> \<open>the elements visited from \<^verbatim>\<open>begin()\<close> to \<^verbatim>\<open>end()\<close>\<close>
  "frames t = traverse (d_data t) (begin_NT t) (end_NT t)"

subsection \<open>Sequences of captures on one thread\<close>

text \<open>
  A thread constructs \<^verbatim>\<open>NativeTrace\<close> objects and fills them; the unwinding facility may
  answer differently at each call. \<open>run\<close> lists the states after each operation and stops
  at a fault.
\<close>

datatype capture_op = Construct | Fill unw_platform size_t

fun run :: "capture_op list \<Rightarrow> thread_ctx \<Rightarrow> NativeTrace \<Rightarrow> (thread_ctx \<times> NativeTrace) list" where
  "run [] w t = []"
| "run (Construct # ops) w t = (w, NativeTrace_init w) # run ops w (NativeTrace_init w)"
| "run (Fill env skip # ops) w t =
     (case fill env skip w t of
        Inl f \<Rightarrow> []
      | Inr (r, w', t') \<Rightarrow> (w', t') # run ops w' t')"

definition calls_during :: "thread_ctx \<Rightarrow> thread_ctx \<Rightarrow> unw_call list" where
  \<comment> \<open>the libunwind calls made between two contexts\<close>
  "calls_during w w' = drop (length (unw_calls w)) (unw_calls w')"

subsection \<open>The forwarding functions of Tracker\<close>

text \<open>
  Modelled from the spec: \<^verbatim>\<open>hooks::Allocator\<close>, declared in \<^verbatim>\<open>hooks.h\<close>; the
  allocator kinds are malloc, calloc, realloc, free and the mmap family.
\<close>

datatype Allocator = MALLOC | CALLOC | REALLOC | FREE | MMAP

type_synonym addr = "64 word"

text \<open>
  The header declares \<^verbatim>\<open>getTracker\<close> and the five \<^verbatim>\<open>...Impl\<close> members without
  defining them; they are parameters. \<open>'s\<close> is the state of the process, \<open>'t\<close> a
  \<^verbatim>\<open>Tracker*\<close> that is not null.
\<close>

record ('s, 't) Tracker_members =
  getTracker :: "'s \<Rightarrow> 't option"
  trackAllocationImpl :: "'t \<Rightarrow> addr \<Rightarrow> size_t \<Rightarrow> Allocator \<Rightarrow> 's \<Rightarrow> 's"
  trackDeallocationImpl :: "'t \<Rightarrow> addr \<Rightarrow> size_t \<Rightarrow> Allocator \<Rightarrow> 's \<Rightarrow> 's"
  invalidate_module_cache_impl :: "'t \<Rightarrow> 's \<Rightarrow> 's"
  updateModuleCacheImpl :: "'t \<Rightarrow> 's \<Rightarrow> 's"
  registerThreadNameImpl :: "'t \<Rightarrow> string \<Rightarrow> 's \<Rightarrow> 's"

definition trackAllocation ::
  "('s, 't) Tracker_members \<Rightarrow> addr \<Rightarrow> size_t \<Rightarrow> Allocator \<Rightarrow> 's \<Rightarrow> 's" where
  "trackAllocation M ptr sz func s =
     (case getTracker M s of
        Some tracker \<Rightarrow> trackAllocationImpl M tracker ptr sz func s
      | None \<Rightarrow> s)"

definition trackDeallocation ::
  "('s, 't) Tracker_members \<Rightarrow> addr \<Rightarrow> size_t \<Rightarrow> Allocator \<Rightarrow> 's \<Rightarrow> 's" where
  "trackDeallocation M ptr sz func s =
     (case getTracker M s of
        Some tracker \<Rightarrow> trackDeallocationImpl M tracker ptr sz func s
      | None \<Rightarrow> s)"

definition invalidate_module_cache :: "('s, 't) Tracker_members \<Rightarrow> 's \<Rightarrow> 's" where
  "invalidate_module_cache M s =
     (case getTracker M s of
        Some tracker \<Rightarrow> invalidate_module_cache_impl M tracker s
      | None \<Rightarrow> s)"

definition updateModuleCache :: "('s, 't) Tracker_members \<Rightarrow> 's \<Rightarrow> 's" where
  "updateModuleCache M s =
     (case getTracker M s of
        Some tracker \<Rightarrow> updateModuleCacheImpl M tracker s
      | None \<Rightarrow> s)"

definition registerThreadName :: "('s, 't) Tracker_members \<Rightarrow> string \<Rightarrow> 's \<Rightarrow> 's" where
  "registerThreadName M name s =
     (case getTracker M s of
        Some tracker \<Rightarrow> registerThreadNameImpl M tracker name s
      | None \<Rightarrow> s)"

subsection \<open>The singleton's life cycle and the interpreter frame stack\<close>

text \<open>
  The header declares \<^verbatim>\<open>createTracker\<close>, \<^verbatim>\<open>destroyTracker\<close>, \<^verbatim>\<open>isActive\<close>,
  \<^verbatim>\<open>activate\<close>, \<^verbatim>\<open>deactivate\<close>, \<^verbatim>\<open>pushFrame\<close> and \<^verbatim>\<open>popFrames\<close>; their
  bodies are in \<^verbatim>\<open>tracking_api.cpp\<close>. The definitions of this subsection follow the
  specification of the repository instead, and each says which sentences it follows.
\<close>

text \<open>
  Modelled from the spec: \<^verbatim>\<open>RawFrame\<close>, declared in \<^verbatim>\<open>records.h\<close>; a frame is a
  call-site identity with its source location (function, file, line).
\<close>

record RawFrame =
  function_name :: string
  filename :: string
  lineno :: int

type_synonym thread_id = nat

text \<open>
  Modelled from the spec: \<^verbatim>\<open>RecordWriter\<close>, declared in \<^verbatim>\<open>record_writer.h\<close>; the
  sink receives an ordered stream of records, and a record is its text here.
\<close>

type_synonym RecordWriter = "string list"

text \<open>
  Modelled from the spec: a \<^verbatim>\<open>Tracker\<close> instance, reduced to the data members of the
  header that \<^verbatim>\<open>createTracker\<close> is given values for.
\<close>

record Tracker =
  d_writer :: RecordWriter
  d_unwind_native_frames :: bool
  d_memory_interval :: nat
  d_follow_fork :: bool

text \<open>
  Modelled from the spec: the process-wide state. \<open>d_instance\<close> is the
  \<^verbatim>\<open>std::atomic<Tracker*>\<close> of the header (\<open>None\<close> for the null pointer;
  \<^verbatim>\<open>d_instance_owner\<close> owns the object it points to) and \<open>d_active\<close> its
  \<^verbatim>\<open>std::atomic<bool>\<close>; \<open>mirror\<close> is the per-thread sequence of active interpreter
  frames, \<open>sampler_running\<close> says whether the background sampler runs, \<open>closed_sinks\<close>
  holds the sinks that have been flushed and closed, \<open>fork_hooks\<close> whether the
  fork-safety hooks are installed.
\<close>

record process =
  d_instance :: "Tracker option"
  d_active :: bool
  mirror :: "thread_id \<Rightarrow> RawFrame list"
  sampler_running :: bool
  closed_sinks :: "RecordWriter list"
  fork_hooks :: bool

datatype py_result = PyNone | PyError

text \<open>
  Modelled from the spec: \<^verbatim>\<open>getTracker() -> instance_or_null\<close> is a read of the current
  instance pointer.
\<close>

definition getTracker_spec :: "process \<Rightarrow> Tracker option" where
  "getTracker_spec p = d_instance p"

text \<open>
  Modelled from the spec: \<^verbatim>\<open>createTracker(sink, capture_native, sample_interval,
  follow_fork)\<close> fails if an instance already exists, a failure reported to the caller
  and neither a crash nor a silent replacement; otherwise it creates the instance, installs
  the fork-safety hooks and starts the background sampler if the interval is positive. The
  life cycle goes from Uninitialized to Active on create.
\<close>

definition createTracker ::
  "RecordWriter \<Rightarrow> bool \<Rightarrow> nat \<Rightarrow> bool \<Rightarrow> process \<Rightarrow> py_result \<times> process" where
  "createTracker record_writer native_traces memory_interval follow_fork p =
     (case d_instance p of
        Some existing \<Rightarrow> (PyError, p)
      | None \<Rightarrow>
          (PyNone,
           p\<lparr>d_instance := Some \<lparr>d_writer = record_writer,
                                  d_unwind_native_frames = native_traces,
                                  d_memory_interval = memory_interval,
                                  d_follow_fork = follow_fork\<rparr>,
             d_active := True,
             sampler_running := (0 < memory_interval),
             fork_hooks := True\<rparr>))"

text \<open>
  Modelled from the spec: \<^verbatim>\<open>destroyTracker()\<close> stops the background sampler, flushes and
  closes the sink and releases the singleton; the life cycle goes to Destroyed, which is
  neither Active nor Paused. Calling it twice is a no-op.
\<close>

definition destroyTracker :: "process \<Rightarrow> py_result \<times> process" where
  "destroyTracker p =
     (case d_instance p of
        None \<Rightarrow> (PyNone, p)
      | Some tracker \<Rightarrow>
          (PyNone,
           p\<lparr>d_instance := None,
             d_active := False,
             sampler_running := False,
             closed_sinks := closed_sinks p @ [d_writer tracker]\<rparr>))"

text \<open>
  Modelled from the spec: \<^verbatim>\<open>isActive()\<close> reads the activation flag, \<^verbatim>\<open>activate()\<close>
  and \<^verbatim>\<open>deactivate()\<close> toggle it and touch nothing else.
\<close>

definition isActive :: "process \<Rightarrow> bool" where
  "isActive p = d_active p"

definition activate :: "process \<Rightarrow> process" where
  "activate p = p\<lparr>d_active := True\<rparr>"

definition deactivate :: "process \<Rightarrow> process" where
  "deactivate p = p\<lparr>d_active := False\<rparr>"

text \<open>
  Modelled from the spec: \<^verbatim>\<open>pushFrame(frame) -> bool\<close> and \<^verbatim>\<open>popFrames(count) -> bool\<close>
  maintain, per thread, an ordered sequence of the active interpreter frames, each thread
  touching its own sequence only, and return false when the singleton is not active.
  \<open>tid\<close> is the calling thread. The spec does not say what \<^verbatim>\<open>popFrames\<close> does when
  \<open>count\<close> exceeds the length of the sequence; here the sequence becomes empty.
\<close>

definition pushFrame :: "thread_id \<Rightarrow> RawFrame \<Rightarrow> process \<Rightarrow> bool \<times> process" where
  "pushFrame tid frame p =
     (if isActive p
      then (True, p\<lparr>mirror := (mirror p)(tid := mirror p tid @ [frame])\<rparr>)
      else (False, p))"

definition popFrames :: "thread_id \<Rightarrow> 32 word \<Rightarrow> process \<Rightarrow> bool \<times> process" where
  "popFrames tid count p =
     (if isActive p
      then (True, p\<lparr>mirror := (mirror p)(tid := take (length (mirror p tid) - unat count) (mirror p tid))\<rparr>)
      else (False, p))"

subsection \<open>Example inputs\<close>

text \<open>
  A thread three frames deep, seen alike by both ways of unwinding, and a context with
  capacity \<open>m\<close> that has written and called nothing yet.
\<close>

definition depth3 :: unw_platform where
  "depth3 = \<lparr>backtrace_ips = [10, 20, 30], getcontext_rc = 0, init_local_rc = 0,
             cursor = Step (Some 10) (Step (Some 20) (End (Some 30)))\<rparr>"

definition ctx :: "size_t \<Rightarrow> thread_ctx" where
  "ctx m = \<lparr>MAX_SIZE = m, cerr = [], unw_calls = []\<rparr>"

text \<open>The objects the constructor builds when the capacity is 4 and 3.\<close>

definition trace4 :: NativeTrace where
  "trace4 = \<lparr>d_size = 0, d_skip = 0, d_data = [0, 0, 0, 0]\<rparr>"

definition trace3 :: NativeTrace where
  "trace3 = \<lparr>d_size = 0, d_skip = 0, d_data = [0, 0, 0]\<rparr>"

text \<open>The same thread when \<^verbatim>\<open>unw_getcontext\<close> fails.\<close>

definition depth3_no_context :: unw_platform where
  "depth3_no_context = depth3\<lparr>getcontext_rc := - 1\<rparr>"

text \<open>A process in which nothing has been created yet, and one frame.\<close>

definition fresh_process :: process where
  "fresh_process = \<lparr>d_instance = None, d_active = False, mirror = (\<lambda>tid. []),
                    sampler_running = False, closed_sinks = [], fork_hooks = False\<rparr>"

definition frame_main :: RawFrame where
  "frame_main = \<lparr>function_name = ''main'', filename = ''app.py'', lineno = 1\<rparr>"

text \<open>
  Members for the forwarding functions: \<^verbatim>\<open>getTracker\<close> as the spec has it, and
  implementations that append the name of the call to the sink of the instance.
\<close>

definition note_call :: "string \<Rightarrow> Tracker \<Rightarrow> process \<Rightarrow> process" where
  "note_call name tracker p = p\<lparr>d_instance := Some (tracker\<lparr>d_writer := d_writer tracker @ [name]\<rparr>)\<rparr>"

definition logging_members :: "(process, Tracker) Tracker_members" where
  "logging_members =
     \<lparr>getTracker = getTracker_spec,
      trackAllocationImpl = (\<lambda>tracker ptr sz func. note_call ''allocation'' tracker),
      trackDeallocationImpl = (\<lambda>tracker ptr sz func. note_call ''deallocation'' tracker),
      invalidate_module_cache_impl = note_call ''invalidate'',
      updateModuleCacheImpl = note_call ''update'',
      registerThreadNameImpl = (\<lambda>tracker name. note_call name tracker)\<rparr>"

section \<open>Properties of NativeTrace\<close>

subsection \<open>Conversions between \<^verbatim>\<open>int\<close> and \<^verbatim>\<open>size_t\<close>\<close>

lemma int_of_size_t_lt: "int_of_size_t x < 2 ^ 31"
  unfolding int_of_size_t_def using sint_lt [of "ucast x :: 32 word"] by simp

lemma sint_le_uint32: "sint (y :: 32 word) \<le> uint y"
proof -
  have "sint y = signed_take_bit 31 (uint y)"
    by (simp add: sint_uint)
  also have "\<dots> = take_bit 32 (uint y) - 2 ^ 32 * of_bool (bit (uint y) 31)"
    using signed_take_bit_eq_take_bit_minus [of 31 "uint y"] by simp
  also have "\<dots> \<le> take_bit 32 (uint y)"
    by simp
  also have "\<dots> = uint y"
    using uint_bounded [of y] by (simp add: take_bit_int_eq_self_iff)
  finally show ?thesis .
qed

lemma int_of_size_t_le: "int_of_size_t x \<le> uint x"
proof -
  have "uint (ucast x :: 32 word) \<le> uint x"
    by (simp add: unsigned_ucast_eq take_bit_int_less_eq_self_iff)
  then show ?thesis
    unfolding int_of_size_t_def using sint_le_uint32 [of "ucast x"] by linarith
qed

lemma unat_size_t_of_int: "n < 2 ^ 31 \<Longrightarrow> unat (size_t_of_int (int n)) = n"
  unfolding size_t_of_int_def
  by (simp add: unsigned_of_nat take_bit_nat_eq_self_iff)

lemma size_t_of_int_eq_iff:
  assumes "n < 2 ^ 31"
  shows "size_t_of_int (int n) = m \<longleftrightarrow> int n = uint m"
proof
  assume "size_t_of_int (int n) = m"
  then have "unat m = n"
    using unat_size_t_of_int [OF assms] by simp
  then show "int n = uint m"
    by (simp add: uint_nat)
next
  assume "int n = uint m"
  then show "size_t_of_int (int n) = m"
    by (simp add: size_t_of_int_def)
qed

subsection \<open>The fast unwind\<close>

lemma length_unw_backtrace_lt: "length (unw_backtrace env (int_of_size_t m)) < 2 ^ 31"
proof -
  have "length (unw_backtrace env (int_of_size_t m)) \<le> nat (int_of_size_t m)"
    by (simp add: unw_backtrace_def)
  moreover have "nat (int_of_size_t m) < 2 ^ 31"
    using int_of_size_t_lt [of m] by (simp add: nat_less_iff)
  ultimately show ?thesis by linarith
qed

lemma length_unw_backtrace_le: "length (unw_backtrace env (int_of_size_t m)) \<le> unat m"
proof -
  have "length (unw_backtrace env (int_of_size_t m)) \<le> nat (int_of_size_t m)"
    by (simp add: unw_backtrace_def)
  moreover have "nat (int_of_size_t m) \<le> unat m"
    using int_of_size_t_le [of m] by (simp add: nat_le_iff)
  ultimately show ?thesis by linarith
qed

lemma length_resize: "length (resize n xs) = n"
  by (simp add: resize_def)

lemma resize_0: "resize 0 xs = []"
  by (simp add: resize_def)

lemma unwind_Inr:
  assumes "unwind env w buf = Inr (rc, w1, buf')"
  shows "rc = int (length (unw_backtrace env (int_of_size_t (MAX_SIZE w))))"
    and "w1 = w\<lparr>unw_calls := unw_calls w @ [Call_backtrace (int_of_size_t (MAX_SIZE w))]\<rparr>"
    and "length buf' = length buf"
    and "nat rc \<le> length buf"
  using assms by (auto simp: unwind_def Let_def split: if_splits)

lemma unwind_total:
  assumes "length buf = unat (MAX_SIZE w)"
  shows "\<exists>r. unwind env w buf = Inr r"
  using assms length_unw_backtrace_le [of env "MAX_SIZE w"]
  by (simp add: unwind_def Let_def)

subsection \<open>The exact unwind\<close>

lemma exact_unwind_MAX_SIZE:
  "exact_unwind env w d = (n, w', d') \<Longrightarrow> MAX_SIZE w' = MAX_SIZE w"
  by (auto simp: exact_unwind_def Let_def split: if_splits prod.splits)

lemma exact_unwind_fst:
  "fst (exact_unwind env w d) = fst (exact_unwind env w' d)"
  by (auto simp: exact_unwind_def Let_def split: if_splits prod.splits)

text \<open>
  When the context and the cursor are available and every frame can be read, the exact
  unwind walks until \<^verbatim>\<open>unw_step\<close> returns zero and returns the number of frames.
\<close>

lemma walk_cursor_ips:
  "cursor_ips c = Some ips \<Longrightarrow> \<exists>calls. walk c d = (True, calls, [], d @ ips)"
proof (induction c d arbitrary: ips rule: walk.induct)
  case (4 ip c d)
  then obtain ips' where ips': "cursor_ips c = Some ips'" "ips = ip # ips'"
    by auto
  obtain calls where "walk c (d @ [ip]) = (True, calls, [], (d @ [ip]) @ ips')"
    using "4.IH" [OF ips'(1)] by blast
  then show ?case
    using ips'(2) by simp
qed simp_all

lemma exact_unwind_depth:
  assumes "0 \<le> getcontext_rc env" and "0 \<le> init_local_rc env"
    and "cursor_ips (cursor env) = Some ips"
  shows "\<exists>w'. exact_unwind env w [] = (of_nat (length ips), w', ips) \<and> cerr w' = cerr w"
proof -
  obtain calls where "walk (cursor env) [] = (True, calls, [], [] @ ips)"
    using walk_cursor_ips [OF assms(3)] by blast
  then show ?thesis
    using assms(1,2) by (simp add: exact_unwind_def Let_def)
qed

lemma exact_unwind_calls:
  "exact_unwind env w d = (n, w', d') \<Longrightarrow>
     \<exists>cs. unw_calls w' = unw_calls w @ Call_getcontext # cs"
  by (auto simp: exact_unwind_def Let_def split: if_splits prod.splits)

subsection \<open>The unwinding part of \<^verbatim>\<open>fill\<close>\<close>

lemma unat_double:
  fixes m :: size_t
  assumes "unat m < 2 ^ 31"
  shows "unat (m * 2) = 2 * unat m"
proof -
  have "unat (m * 2) = (unat m * 2) mod 2 ^ 64"
    by (simp add: unat_word_ariths)
  moreover have "unat m * 2 < 2 ^ 64"
    using assms by simp
  ultimately show ?thesis by simp
qed

text \<open>
  The exact unwind is entered only when the capacity equals a count that \<^verbatim>\<open>unw_backtrace\<close>
  returned as an \<^verbatim>\<open>int\<close>, so doubling the capacity there never wraps around.
\<close>

lemma truncated_capacity_small:
  assumes "size_t_of_int (int (length (unw_backtrace env (int_of_size_t m)))) = m"
  shows "unat m < 2 ^ 31"
  using unat_size_t_of_int [OF length_unw_backtrace_lt [of env m]] assms
    length_unw_backtrace_lt [of env m] by simp

lemma fill_unwind_cases:
  assumes "fill_unwind env w t = Inr (n, w', t')"
  defines "w1 \<equiv> w\<lparr>unw_calls := unw_calls w @ [Call_backtrace (int_of_size_t (MAX_SIZE w))]\<rparr>"
  defines "ips \<equiv> unw_backtrace env (int_of_size_t (MAX_SIZE w))"
  shows "length ips \<le> length (d_data t) \<and>
         (if size_t_of_int (int (length ips)) = MAX_SIZE w
          then \<exists>w2 d. exact_unwind env w1 [] = (n, w2, d) \<and>
                 w' = w2\<lparr>MAX_SIZE := max (MAX_SIZE w * 2) n\<rparr> \<and>
                 t' = t\<lparr>d_data := resize (unat (max (MAX_SIZE w * 2) n)) d\<rparr>
          else n = size_t_of_int (int (length ips)) \<and> w' = w1 \<and>
                 t' = t\<lparr>d_data := ips @ drop (length ips) (d_data t)\<rparr>)"
proof -
  from assms(1) obtain rc w0 buf where u: "unwind env w (d_data t) = Inr (rc, w0, buf)"
    by (auto simp: fill_unwind_def split: sum.splits)
  have rc: "rc = int (length ips)" and w0: "w0 = w1"
    using unwind_Inr(1,2) [OF u] by (simp_all add: ips_def w1_def)
  have buf: "buf = ips @ drop (length ips) (d_data t)" and le: "length ips \<le> length (d_data t)"
    using u by (auto simp: unwind_def Let_def ips_def split: if_splits)
  have m1: "MAX_SIZE w1 = MAX_SIZE w"
    by (simp add: w1_def)
  show ?thesis
  proof (cases "size_t_of_int (int (length ips)) = MAX_SIZE w")
    case True
    obtain n2 w2 d where e: "exact_unwind env w1 [] = (n2, w2, d)"
      by (cases "exact_unwind env w1 []") auto
    have m2: "MAX_SIZE w2 = MAX_SIZE w"
      using exact_unwind_MAX_SIZE [OF e] m1 by simp
    from assms(1) u True e m2 have "n = n2" "w' = w2\<lparr>MAX_SIZE := max (MAX_SIZE w * 2) n2\<rparr>"
        "t' = t\<lparr>d_data := resize (unat (max (MAX_SIZE w * 2) n2)) d\<rparr>"
      by (auto simp: fill_unwind_def rc w0 m1 resize_0 max_def Let_def split: if_splits)
    with True e le show ?thesis by simp
  next
    case False
    with assms(1) u have "n = size_t_of_int (int (length ips))" "w' = w1" "t' = t\<lparr>d_data := buf\<rparr>"
      by (simp_all add: fill_unwind_def rc w0 m1 Let_def)
    with False le buf show ?thesis by simp
  qed
qed

lemma fill_unwind_total:
  assumes "length (d_data t) = unat (MAX_SIZE w)"
  shows "\<exists>n w' t'. fill_unwind env w t = Inr (n, w', t')"
proof -
  obtain rc w1 buf where "unwind env w (d_data t) = Inr (rc, w1, buf)"
    using unwind_total [OF assms, of env] by auto
  then show ?thesis
    by (auto simp: fill_unwind_def Let_def split: prod.splits)
qed

lemma grow_mono:
  fixes m n :: size_t
  assumes "unat m < 2 ^ 31"
  shows "m \<le> max (m * 2) n"
proof -
  have "unat m \<le> unat (m * 2)"
    using unat_double [OF assms] by simp
  then have "m \<le> m * 2"
    by (simp add: word_le_nat_alt)
  then show ?thesis
    by (simp add: le_max_iff_disj)
qed

lemma grow_unat:
  fixes m n :: size_t
  assumes "unat m < 2 ^ 31"
  shows "unat (max (m * 2) n) = max (2 * unat m) (unat n)"
  using unat_double [OF assms]
  by (auto simp: word_le_nat_alt max_def)

lemma fill_unwind_props:
  assumes "fill_unwind env w t = Inr (n, w', t')"
  shows "unat n \<le> length (d_data t')"
    and "d_size t' = d_size t" and "d_skip t' = d_skip t"
    and "MAX_SIZE w \<le> MAX_SIZE w'"
    and "length (d_data t) = unat (MAX_SIZE w) \<Longrightarrow> length (d_data t') = unat (MAX_SIZE w')"
proof -
  let ?ips = "unw_backtrace env (int_of_size_t (MAX_SIZE w))"
  note c = fill_unwind_cases [OF assms]
  have lt: "length ?ips < 2 ^ 31"
    by (rule length_unw_backtrace_lt)
  show "unat n \<le> length (d_data t')"
  proof (cases "size_t_of_int (int (length ?ips)) = MAX_SIZE w")
    case True
    then show ?thesis
      using c by (auto simp: length_resize word_le_nat_alt [symmetric])
  next
    case False
    then show ?thesis
      using c unat_size_t_of_int [OF lt] by auto
  qed
  show "d_size t' = d_size t" "d_skip t' = d_skip t"
    using c by (auto split: if_splits)
  show "MAX_SIZE w \<le> MAX_SIZE w'"
  proof (cases "size_t_of_int (int (length ?ips)) = MAX_SIZE w")
    case True
    then show ?thesis
      using c grow_mono [OF truncated_capacity_small [OF True]] by auto
  next
    case False
    then show ?thesis using c by auto
  qed
  show "length (d_data t') = unat (MAX_SIZE w')" if "length (d_data t) = unat (MAX_SIZE w)"
    using c that by (auto simp: length_resize split: if_splits)
qed

subsection \<open>\<^verbatim>\<open>fill\<close> and \<^verbatim>\<open>size\<close>\<close>

lemma uint_sub_le:
  fixes n k :: size_t
  shows "k \<le> n \<Longrightarrow> uint (n - k) = uint n - uint k"
  using uint_sub_lem [of k n] by (simp add: word_le_def)

lemma int_of_size_t_small:
  assumes "unat x < 2 ^ 31"
  shows "int_of_size_t x = uint x"
proof -
  have u: "uint x < 2 ^ 31"
    using assms by transfer simp
  have "uint (ucast x :: 32 word) = take_bit 32 (uint x)"
    by (simp add: unsigned_ucast_eq)
  also have "\<dots> = uint x"
    using u by (simp add: take_bit_int_eq_self_iff)
  finally have "uint (ucast x :: 32 word) = uint x" .
  moreover have "sint (ucast x :: 32 word) = signed_take_bit 31 (uint (ucast x :: 32 word))"
    by (simp add: sint_uint)
  ultimately have "sint (ucast x :: 32 word) = signed_take_bit 31 (uint x)"
    by simp
  also have "\<dots> = uint x"
  proof -
    have "- (2 ^ 31) \<le> uint x"
      by (rule order_trans [OF _ uint_ge_0]) simp
    then show ?thesis
      using u by (simp add: signed_take_bit_int_eq_self_iff)
  qed
  finally show ?thesis
    by (simp add: int_of_size_t_def)
qed

lemma fill_Inr:
  assumes "fill env skip w t = Inr (r, w', t')"
  shows "\<exists>n. fill_unwind env w t = Inr (n, w', t'\<lparr>d_size := d_size t, d_skip := d_skip t\<rparr>) \<and>
           r = (skip < n) \<and> d_size t' = (if skip < n then n - skip else 0) \<and> d_skip t' = skip \<and>
           unat n \<le> length (d_data t')"
proof -
  from assms obtain n t0 where u: "fill_unwind env w t = Inr (n, w', t0)"
    and t': "t' = t0\<lparr>d_size := (if skip < n then n - skip else 0), d_skip := skip\<rparr>"
    and r: "r = (0 < d_size t')"
    by (auto simp: fill_def Let_def split: sum.splits)
  have "t'\<lparr>d_size := d_size t, d_skip := d_skip t\<rparr> = t0"
    using fill_unwind_props(2,3) [OF u] t' by simp
  moreover have "(0 < d_size t') = (skip < n)"
    using t' by (auto simp: word_greater_zero_iff)
  moreover have "unat n \<le> length (d_data t')"
    using fill_unwind_props(1) [OF u] t' by simp
  ultimately show ?thesis
    using u t' r by auto
qed

text \<open>
  C9. Started on an object whose vector has \<^verbatim>\<open>MAX_SIZE\<close> elements (what the constructor
  leaves), \<^verbatim>\<open>fill(skip)\<close> returns for every \<^verbatim>\<open>skip\<close>. With \<open>n\<close> the number of
  unwound frames (the local \<^verbatim>\<open>size\<close>): if \<open>n > skip\<close> then \<^verbatim>\<open>d_size\<close> is \<open>n - skip\<close>
  without wrap-around and \<^verbatim>\<open>fill\<close> returns true, otherwise \<^verbatim>\<open>d_size\<close> is 0 and
  \<^verbatim>\<open>fill\<close> returns false; \<^verbatim>\<open>size()\<close> returns that number whenever it fits the
  \<^verbatim>\<open>int\<close> it is returned as.
\<close>

theorem fill_size_guarded:
  assumes "length (d_data t) = unat (MAX_SIZE w)"
  shows "\<exists>n w' t'.
           fill_unwind env w t = Inr (n, w', t'\<lparr>d_size := d_size t, d_skip := d_skip t\<rparr>) \<and>
           fill env skip w t = Inr (skip < n, w', t') \<and>
           d_size t' = (if skip < n then n - skip else 0) \<and>
           unat (d_size t') = unat n - unat skip \<and>
           d_skip t' = skip \<and>
           (unat n - unat skip < 2 ^ 31 \<longrightarrow>
              size_NT t' = (if skip < n then uint n - uint skip else 0))"
proof -
  obtain n w' t0 where u: "fill_unwind env w t = Inr (n, w', t0)"
    using fill_unwind_total [OF assms] by blast
  define t' where "t' = t0\<lparr>d_size := (if skip < n then n - skip else 0), d_skip := skip\<rparr>"
  have ds: "d_size t' = (if skip < n then n - skip else 0)"
    by (simp add: t'_def)
  have f: "fill env skip w t = Inr (skip < n, w', t')"
    using u by (auto simp: fill_def t'_def Let_def word_greater_zero_iff)
  have old: "t'\<lparr>d_size := d_size t, d_skip := d_skip t\<rparr> = t0"
    using fill_unwind_props(2,3) [OF u] by (simp add: t'_def)
  have un: "unat (d_size t') = unat n - unat skip"
  proof (cases "skip < n")
    case True
    then have "skip \<le> n" by simp
    then show ?thesis using True ds by (simp add: unat_sub)
  next
    case False
    then have "unat n \<le> unat skip" by (simp add: word_less_nat_alt)
    then show ?thesis using False ds by simp
  qed
  have sz: "size_NT t' = (if skip < n then uint n - uint skip else 0)"
    if "unat n - unat skip < 2 ^ 31"
  proof -
    have "size_NT t' = uint (d_size t')"
      using that un by (simp add: size_NT_def int_of_size_t_small)
    also have "\<dots> = (if skip < n then uint n - uint skip else 0)"
    proof (cases "skip < n")
      case True
      then have "skip \<le> n" by simp
      then show ?thesis using True ds by (simp add: uint_sub_le)
    next
      case False
      then show ?thesis using ds by simp
    qed
    finally show ?thesis .
  qed
  have "d_skip t' = skip"
    by (simp add: t'_def)
  then show ?thesis
    using u f ds un sz old by blast
qed

subsection \<open>The example capture\<close>

text \<open>The example objects are what the constructor builds.\<close>

lemma NativeTrace_init_examples:
  "NativeTrace_init (ctx 4) = trace4" "NativeTrace_init (ctx 3) = trace3"
proof -
  have "replicate 4 (0 :: ip_t) = [0, 0, 0, 0]" "replicate 3 (0 :: ip_t) = [0, 0, 0]"
    by (simp_all add: eval_nat_numeral)
  then show "NativeTrace_init (ctx 4) = trace4" "NativeTrace_init (ctx 3) = trace3"
    by (simp_all add: NativeTrace_init_def ctx_def resize_def trace4_def trace3_def)
qed

lemma fill_unwind_depth3_ctx4:
  "fill_unwind depth3 (ctx 4) trace4 =
     Inr (3, \<lparr>MAX_SIZE = 4, cerr = [], unw_calls = [Call_backtrace 4]\<rparr>,
          \<lparr>d_size = 0, d_skip = 0, d_data = [10, 20, 30, 0]\<rparr>)"
  by (simp add: fill_unwind_def unwind_def int_of_size_t_def size_t_of_int_def
      unw_backtrace_def depth3_def ctx_def trace4_def Let_def)

lemma fill_depth3_skip1:
  "fill depth3 1 (ctx 4) trace4 =
     Inr (True, \<lparr>MAX_SIZE = 4, cerr = [], unw_calls = [Call_backtrace 4]\<rparr>,
          \<lparr>d_size = 2, d_skip = 1, d_data = [10, 20, 30, 0]\<rparr>)"
  by (simp add: fill_def fill_unwind_depth3_ctx4)

lemma fill_depth3_skip0:
  "fill depth3 0 (ctx 4) trace4 =
     Inr (True, \<lparr>MAX_SIZE = 4, cerr = [], unw_calls = [Call_backtrace 4]\<rparr>,
          \<lparr>d_size = 3, d_skip = 0, d_data = [10, 20, 30, 0]\<rparr>)"
  by (simp add: fill_def fill_unwind_depth3_ctx4)

lemma fill_unwind_depth3_ctx3:
  "fill_unwind depth3 (ctx 3) trace3 =
     Inr (3, \<lparr>MAX_SIZE = 6, cerr = [],
              unw_calls = [Call_backtrace 3, Call_getcontext, Call_init_local,
                           Call_get_reg, Call_step, Call_get_reg, Call_step, Call_get_reg, Call_step]\<rparr>,
          \<lparr>d_size = 0, d_skip = 0, d_data = [10, 20, 30, 0, 0, 0]\<rparr>)"
proof -
  have "replicate 3 (0 :: ip_t) = [0, 0, 0]"
    by (simp add: eval_nat_numeral)
  then show ?thesis
    by (simp add: fill_unwind_def unwind_def exact_unwind_def int_of_size_t_def size_t_of_int_def
        unw_backtrace_def depth3_def ctx_def trace3_def resize_def Let_def)
qed

lemma fill_depth3_truncated:
  "fill depth3 1 (ctx 3) trace3 =
     Inr (True, \<lparr>MAX_SIZE = 6, cerr = [],
                 unw_calls = [Call_backtrace 3, Call_getcontext, Call_init_local,
                              Call_get_reg, Call_step, Call_get_reg, Call_step, Call_get_reg, Call_step]\<rparr>,
          \<lparr>d_size = 2, d_skip = 1, d_data = [10, 20, 30, 0, 0, 0]\<rparr>)"
  by (simp add: fill_def fill_unwind_depth3_ctx3)

lemma fill_depth3_truncated_skip0:
  "fill depth3 0 (ctx 3) trace3 =
     Inr (True, \<lparr>MAX_SIZE = 6, cerr = [],
                 unw_calls = [Call_backtrace 3, Call_getcontext, Call_init_local,
                              Call_get_reg, Call_step, Call_get_reg, Call_step, Call_get_reg, Call_step]\<rparr>,
          \<lparr>d_size = 3, d_skip = 0, d_data = [10, 20, 30, 0, 0, 0]\<rparr>)"
  by (simp add: fill_def fill_unwind_depth3_ctx3)

theorem fill_size_guarded_witness:
  "length (d_data trace4) = unat (MAX_SIZE (ctx 4)) \<and>
   fill depth3 1 (ctx 4) trace4 =
     Inr (True, \<lparr>MAX_SIZE = 4, cerr = [], unw_calls = [Call_backtrace 4]\<rparr>,
          \<lparr>d_size = 2, d_skip = 1, d_data = [10, 20, 30, 0]\<rparr>) \<and>
   size_NT \<lparr>d_size = 2, d_skip = 1, d_data = [10, 20, 30, 0]\<rparr> = 2"
proof -
  let ?T = "\<lparr>d_size = 2, d_skip = 1, d_data = [10, 20, 30, 0]\<rparr>"
  have h: "length (d_data trace4) = unat (MAX_SIZE (ctx 4))"
    by (simp add: trace4_def ctx_def)
  obtain n w' t' where a: "fill_unwind depth3 (ctx 4) trace4 =
        Inr (n, w', t'\<lparr>d_size := d_size trace4, d_skip := d_skip trace4\<rparr>)"
    and b: "fill depth3 1 (ctx 4) trace4 = Inr (1 < n, w', t')"
    and c: "unat n - unat (1 :: size_t) < 2 ^ 31 \<longrightarrow>
              size_NT t' = (if 1 < n then uint n - uint (1 :: size_t) else 0)"
    using fill_size_guarded [OF h, of depth3 1] by blast
  note f = fill_depth3_skip1
  have n: "n = 3"
    using a fill_unwind_depth3_ctx4 by simp
  have "t' = ?T"
    using b f by simp
  moreover have "size_NT t' = 2"
    using c n by simp
  ultimately show ?thesis
    using h f by simp
qed

subsection \<open>Iteration and indexing\<close>

lemma traverse_empty: "traverse d b b = Inr []"
  by (simp add: traverse.simps [of d b b])

lemma traverse_rev_take:
  "e \<le> b \<Longrightarrow> b \<le> length d \<Longrightarrow> traverse d b e = Inr (rev (take (b - e) (drop e d)))"
proof (induction d b e rule: traverse.induct)
  case (1 d b e)
  show ?case
  proof (cases "b = e")
    case True
    then show ?thesis
      by (simp add: traverse_empty)
  next
    case False
    with "1.prems" have lt: "e < b" and pos: "b \<noteq> 0" and le: "\<not> length d < b"
      by simp_all
    have ih: "traverse d (b - 1) e = Inr (rev (take (b - 1 - e) (drop e d)))"
      using "1.IH" [OF False] "1.prems" lt pos by simp
    have "b - e = Suc (b - 1 - e)"
      using lt by simp
    moreover have "b - 1 - e < length (drop e d)"
      using lt "1.prems" by simp
    ultimately have "take (b - e) (drop e d) = take (b - 1 - e) (drop e d) @ [drop e d ! (b - 1 - e)]"
      by (simp add: take_Suc_conv_app_nth)
    moreover have "drop e d ! (b - 1 - e) = d ! (b - 1)"
      using lt "1.prems" by simp
    ultimately show ?thesis
      using False pos le ih by (simp add: traverse.simps [of d b e])
  qed
qed

lemma unat_index:
  fixes n :: size_t
  assumes "i < unat n"
  shows "unat (n - 1 - of_nat i) = unat n - 1 - i"
proof -
  have b: "Suc i < 2 ^ 64"
    using assms unsigned_less [of n, where 'a = nat] by simp
  then have u: "unat (of_nat (Suc i) :: size_t) = Suc i"
    by (simp add: unsigned_of_nat take_bit_nat_eq_self_iff del: of_nat_Suc)
  then have "(of_nat (Suc i) :: size_t) \<le> n"
    using assms by (simp add: word_le_nat_alt del: of_nat_Suc)
  then have "unat (n - of_nat (Suc i)) = unat n - Suc i"
    using u by (simp add: unat_sub del: of_nat_Suc)
  moreover have eq: "n - 1 - of_nat i = n - of_nat (Suc i)"
    by simp
  ultimately show ?thesis
    unfolding eq by (simp del: of_nat_Suc)
qed

text \<open>What a capture that returned holds: \<open>n\<close> is the number of unwound frames.\<close>

lemma fill_layout:
  assumes "fill env skip w t = Inr (r, w', t')"
  shows "\<exists>n. fill_unwind env w t = Inr (n, w', t'\<lparr>d_size := d_size t, d_skip := d_skip t\<rparr>) \<and>
           r = (skip < n) \<and> d_skip t' = skip \<and>
           d_size t' = (if skip < n then n - skip else 0) \<and>
           unat n \<le> length (d_data t') \<and>
           (skip < n \<longrightarrow> d_skip t' + d_size t' = n \<and>
              unat (d_skip t') + unat (d_size t') = unat n)"
proof -
  obtain n where n: "fill_unwind env w t = Inr (n, w', t'\<lparr>d_size := d_size t, d_skip := d_skip t\<rparr>)"
      "r = (skip < n)" "d_size t' = (if skip < n then n - skip else 0)" "d_skip t' = skip"
      "unat n \<le> length (d_data t')"
    using fill_Inr [OF assms] by blast
  have "unat (d_skip t') + unat (d_size t') = unat n" if "skip < n"
  proof -
    have "skip \<le> n" using that by simp
    then have "unat (n - skip) = unat n - unat skip" "unat skip \<le> unat n"
      by (simp_all add: unat_sub word_le_nat_alt)
    then show ?thesis using n that by simp
  qed
  moreover have "d_skip t' + d_size t' = n" if "skip < n"
    using n that by simp
  ultimately show ?thesis
    using n by blast
qed

lemma frames_after_fill:
  assumes "fill env skip w t = Inr (r, w', t')"
  shows "frames t' = Inr (rev (take (unat (d_size t')) (drop (unat (d_skip t')) (d_data t'))))"
proof -
  obtain n where n: "r = (skip < n)" "d_size t' = (if skip < n then n - skip else 0)"
      "unat n \<le> length (d_data t')"
      "skip < n \<Longrightarrow> unat (d_skip t') + unat (d_size t') = unat n"
    using fill_layout [OF assms] by blast
  show ?thesis
  proof (cases "skip < n")
    case True
    then have "begin_NT t' \<le> length (d_data t')" "end_NT t' \<le> begin_NT t'"
        "begin_NT t' - end_NT t' = unat (d_size t')"
      using n by (simp_all add: begin_NT_def end_NT_def)
    then show ?thesis
      using traverse_rev_take [of "end_NT t'" "begin_NT t'" "d_data t'"]
      by (simp add: frames_def end_NT_def)
  next
    case False
    then have "d_size t' = 0" using n by simp
    then show ?thesis
      by (simp add: frames_def begin_NT_def end_NT_def traverse_empty)
  qed
qed

lemma index_after_fill:
  assumes "fill env skip w t = Inr (r, w', t')" and "i < unat (d_size t')"
  shows "index_NT t' (of_nat i) = Inr (d_data t' ! (unat (d_skip t') + unat (d_size t') - 1 - i))"
    and "unat (d_skip t') + unat (d_size t') \<le> length (d_data t')"
proof -
  obtain n where n: "d_size t' = (if skip < n then n - skip else 0)"
      "unat n \<le> length (d_data t')"
      "skip < n \<Longrightarrow> d_skip t' + d_size t' = n"
      "skip < n \<Longrightarrow> unat (d_skip t') + unat (d_size t') = unat n"
    using fill_layout [OF assms(1)] by blast
  have lt: "skip < n"
    using assms(2) n(1) by (cases "skip < n") simp_all
  have i: "i < unat n"
    using assms(2) n(4) [OF lt] by simp
  have "unat (d_skip t' + d_size t' - 1 - of_nat i) = unat n - 1 - i"
    using unat_index [OF i] n(3) [OF lt] by simp
  moreover have "unat n - 1 - i < length (d_data t')"
    using i n(2) by simp
  ultimately show "index_NT t' (of_nat i) =
      Inr (d_data t' ! (unat (d_skip t') + unat (d_size t') - 1 - i))"
    using n(4) [OF lt] by (simp add: index_NT_def Let_def)
  show "unat (d_skip t') + unat (d_size t') \<le> length (d_data t')"
    using n(2) n(4) [OF lt] by simp
qed

text \<open>
  C10. After a \<^verbatim>\<open>fill\<close> that returned, the traversal from \<^verbatim>\<open>begin()\<close> to \<^verbatim>\<open>end()\<close>
  stays inside the vector and visits as many elements as \<^verbatim>\<open>d_size\<close> says, the \<open>i\<close>-th
  visited element is \<^verbatim>\<open>operator[](i)\<close>, itself inside the vector, for every \<open>i\<close> below
  that number, and \<^verbatim>\<open>size()\<close> is that number when it fits the \<^verbatim>\<open>int\<close> it is returned as.
\<close>

theorem frames_agree_with_index:
  assumes "fill env skip w t = Inr (r, w', t')"
  shows "\<exists>xs. frames t' = Inr xs \<and> length xs = unat (d_size t') \<and>
           (\<forall>i < length xs. index_NT t' (of_nat i) = Inr (xs ! i)) \<and>
           (length xs < 2 ^ 31 \<longrightarrow> size_NT t' = int (length xs))"
proof -
  let ?k = "unat (d_skip t')" and ?s = "unat (d_size t')"
  let ?xs = "rev (take ?s (drop ?k (d_data t')))"
  have fr: "frames t' = Inr ?xs"
    by (rule frames_after_fill [OF assms])
  have len: "length ?xs = ?s"
  proof (cases "?s = 0")
    case True
    then show ?thesis by simp
  next
    case False
    then have "?k + ?s \<le> length (d_data t')"
      using index_after_fill(2) [OF assms, of 0] by simp
    then show ?thesis by simp
  qed
  have ix: "index_NT t' (of_nat i) = Inr (?xs ! i)" if "i < length ?xs" for i
  proof -
    have i: "i < ?s" using that len by simp
    have le: "?k + ?s \<le> length (d_data t')"
      by (rule index_after_fill(2) [OF assms i])
    have "?xs ! i = take ?s (drop ?k (d_data t')) ! (?s - Suc i)"
      using i le by (simp add: rev_nth)
    also have "\<dots> = d_data t' ! (?k + (?s - Suc i))"
      using i le by simp
    also have "?k + (?s - Suc i) = ?k + ?s - 1 - i"
      using i by simp
    finally show ?thesis
      using index_after_fill(1) [OF assms i] by simp
  qed
  have sz: "size_NT t' = int (length ?xs)" if "length ?xs < 2 ^ 31"
  proof -
    have "?s < 2 ^ 31" using that len by simp
    then have "size_NT t' = uint (d_size t')"
      by (simp add: size_NT_def int_of_size_t_small)
    then show ?thesis
      unfolding len by simp
  qed
  show ?thesis
    using fr len ix sz by blast
qed

theorem frames_agree_with_index_witness:
  "fill depth3 1 (ctx 4) trace4 =
     Inr (True, \<lparr>MAX_SIZE = 4, cerr = [], unw_calls = [Call_backtrace 4]\<rparr>,
          \<lparr>d_size = 2, d_skip = 1, d_data = [10, 20, 30, 0]\<rparr>) \<and>
   frames \<lparr>d_size = 2, d_skip = 1, d_data = [10, 20, 30, 0]\<rparr> = Inr [30, 20] \<and>
   index_NT \<lparr>d_size = 2, d_skip = 1, d_data = [10, 20, 30, 0]\<rparr> 0 = Inr 30 \<and>
   index_NT \<lparr>d_size = 2, d_skip = 1, d_data = [10, 20, 30, 0]\<rparr> 1 = Inr 20 \<and>
   size_NT \<lparr>d_size = 2, d_skip = 1, d_data = [10, 20, 30, 0]\<rparr> = 2"
proof -
  let ?t = "\<lparr>d_size = 2, d_skip = 1, d_data = [10, 20, 30, 0]\<rparr>"
  obtain xs where fr: "frames ?t = Inr xs"
    and ix: "\<forall>i < length xs. index_NT ?t (of_nat i) = Inr (xs ! i)"
    and sz: "length xs < 2 ^ 31 \<longrightarrow> size_NT ?t = int (length xs)"
    using frames_agree_with_index [OF fill_depth3_skip1] by blast
  have "frames ?t = Inr [30, 20]"
    by (simp add: frames_def begin_NT_def end_NT_def traverse.simps)
  then have xs: "xs = [30, 20]"
    using fr by simp
  have "index_NT ?t 0 = Inr 30" "index_NT ?t 1 = Inr 20"
    using ix [rule_format, of 0] ix [rule_format, of 1] xs by simp_all
  moreover have "size_NT ?t = 2"
    using sz xs by simp
  ultimately show ?thesis
    using fr xs fill_depth3_skip1 by simp
qed

subsection \<open>Skipping\<close>

text \<open>
  C1, as stated, fails. The stack is three frames deep, 10 the innermost and 30 the
  outermost. After \<^verbatim>\<open>fill(1)\<close> frame 0 is 30; after \<^verbatim>\<open>fill(0)\<close> frame 1 is 20.
\<close>

theorem skip_frame0_counterexample:
  "fill depth3 1 (ctx 4) trace4 =
     Inr (True, \<lparr>MAX_SIZE = 4, cerr = [], unw_calls = [Call_backtrace 4]\<rparr>,
          \<lparr>d_size = 2, d_skip = 1, d_data = [10, 20, 30, 0]\<rparr>) \<and>
   fill depth3 0 (ctx 4) trace4 =
     Inr (True, \<lparr>MAX_SIZE = 4, cerr = [], unw_calls = [Call_backtrace 4]\<rparr>,
          \<lparr>d_size = 3, d_skip = 0, d_data = [10, 20, 30, 0]\<rparr>) \<and>
   index_NT \<lparr>d_size = 2, d_skip = 1, d_data = [10, 20, 30, 0]\<rparr> 0 = Inr 30 \<and>
   index_NT \<lparr>d_size = 3, d_skip = 0, d_data = [10, 20, 30, 0]\<rparr> 1 = Inr 20 \<and>
   index_NT \<lparr>d_size = 2, d_skip = 1, d_data = [10, 20, 30, 0]\<rparr> 0 \<noteq>
   index_NT \<lparr>d_size = 3, d_skip = 0, d_data = [10, 20, 30, 0]\<rparr> 1"
  by (simp add: fill_depth3_skip1 fill_depth3_skip0 index_NT_def)

text \<open>
  C1, amended. Let a capture with \<^verbatim>\<open>skip = k\<close> succeed and take an unskipped capture of
  the same stack; \<open>cap\<close> is the captured part of the buffer, the unwound addresses with
  the innermost frame first. In both captures \<^verbatim>\<open>operator[](i)\<close> is the \<open>i\<close>-th address
  counted backwards from the end of \<open>cap\<close>, so the two agree at every index and frame 0
  is the last captured address, the outermost frame, whatever \<open>k\<close> is. The skipped frames
  are the first \<open>k\<close> entries of the buffer, the innermost ones: the traversal of the
  skipped capture is \<open>cap\<close> without them, reversed, and the unskipped capture reports them
  after all the others, at its last \<open>k\<close> indices; at index \<open>k\<close> it reports the
  \<open>k\<close>-th address from the end. When the fast unwind did not fill the buffer, \<open>cap\<close> is
  what \<^verbatim>\<open>unw_backtrace\<close> stored; when it did and the exact walk reads every frame,
  \<open>cap\<close> is the walk.
\<close>

theorem skip_drops_innermost:
  assumes "fill env k w t = Inr (True, wk, tk)" and "fill env 0 w t = Inr (r0, w0, t0)"
  shows "r0 \<and> (\<forall>i. index_NT tk i = index_NT t0 i) \<and> (\<exists>ip. index_NT tk 0 = Inr ip) \<and>
         (\<exists>xs ys. frames tk = Inr xs \<and> frames t0 = Inr (xs @ ys) \<and> length ys = unat k) \<and>
         (\<exists>cap. cap = take (unat (d_size t0)) (d_data t0) \<and>
            d_data tk = d_data t0 \<and> d_skip t0 = 0 \<and> d_skip tk = k \<and>
            length cap = unat (d_size t0) \<and>
            unat (d_size t0) = unat k + unat (d_size tk) \<and> 0 < unat (d_size tk) \<and>
            (\<forall>i < length cap. index_NT t0 (of_nat i) = Inr (cap ! (length cap - 1 - i))) \<and>
            (\<forall>i < length cap - unat k. index_NT tk (of_nat i) = Inr (cap ! (length cap - 1 - i))) \<and>
            index_NT tk 0 = Inr (last cap) \<and> index_NT t0 0 = Inr (last cap) \<and>
            index_NT t0 k = Inr (cap ! (length cap - 1 - unat k)) \<and>
            frames t0 = Inr (rev cap) \<and>
            frames tk = Inr (rev (drop (unat k) cap)) \<and>
            rev cap = rev (drop (unat k) cap) @ rev (take (unat k) cap) \<and>
            take (unat k) cap = take (unat k) (d_data tk) \<and>
            length (take (unat k) cap) = unat k \<and>
            (int (length (unw_backtrace env (int_of_size_t (MAX_SIZE w)))) \<noteq> uint (MAX_SIZE w) \<longrightarrow>
               cap = unw_backtrace env (int_of_size_t (MAX_SIZE w))) \<and>
            (int (length (unw_backtrace env (int_of_size_t (MAX_SIZE w)))) = uint (MAX_SIZE w) \<and>
             0 \<le> getcontext_rc env \<and> 0 \<le> init_local_rc env \<and>
             cursor_ips (cursor env) = Some ips \<and> length ips < 2 ^ 64 \<longrightarrow> cap = ips))"
proof -
  obtain n where n: "fill_unwind env w t = Inr (n, wk, tk\<lparr>d_size := d_size t, d_skip := d_skip t\<rparr>)"
      "k < n" "d_skip tk = k" "d_size tk = n - k" "unat n \<le> length (d_data tk)"
      "d_skip tk + d_size tk = n" "unat (d_skip tk) + unat (d_size tk) = unat n"
    using fill_layout [OF assms(1)] by auto
  obtain n0 where n0: "fill_unwind env w t = Inr (n0, w0, t0\<lparr>d_size := d_size t, d_skip := d_skip t\<rparr>)"
      "r0 = (0 < n0)" "d_skip t0 = 0" "d_size t0 = (if 0 < n0 then n0 - 0 else 0)"
    using fill_layout [OF assms(2)] by auto
  have same: "n0 = n" "tk\<lparr>d_size := d_size t, d_skip := d_skip t\<rparr> = t0\<lparr>d_size := d_size t, d_skip := d_skip t\<rparr>"
    using n(1) n0(1) by simp_all
  have data: "d_data t0 = d_data tk"
    using arg_cong [OF same(2), of d_data] by simp
  have pos: "0 < n"
    by (rule le_less_trans [OF word_zero_le n(2)])
  have s0: "d_size t0 = n"
    using n0(4) same(1) pos by simp
  have r0: r0
    using n0(2) same(1) pos by simp
  have ix: "index_NT tk i = index_NT t0 i" for i
    using n(6) s0 n0(3) data by (simp add: index_NT_def Let_def)
  have sk: "0 < unat (d_size tk)"
    using n(2,4) by (simp add: unat_gt_0)
  then have first: "\<exists>ip. index_NT tk 0 = Inr ip"
    using index_after_fill(1) [OF assms(1), of 0] by auto
  let ?d = "d_data tk"
  let ?xs = "rev (take (unat (d_size tk)) (drop (unat k) ?d))"
  let ?ys = "rev (take (unat k) ?d)"
  have fk: "frames tk = Inr ?xs"
    using frames_after_fill [OF assms(1)] n(3) by simp
  have f0': "frames t0 = Inr (rev (take (unat n) ?d))"
    using frames_after_fill [OF assms(2)] n0(3) s0 data by simp
  have split: "take (unat n) ?d = take (unat k) ?d @ take (unat (d_size tk)) (drop (unat k) ?d)"
    using n(3,7) take_add [of "unat k" "unat (d_size tk)" ?d] by simp
  have f0: "frames t0 = Inr (?xs @ ?ys)"
    using f0' split by simp
  have kd: "unat k \<le> length ?d"
    using n(3,5,7) by simp
  then have lys: "length ?ys = unat k"
    by simp
  have old: "\<exists>xs ys. frames tk = Inr xs \<and> frames t0 = Inr (xs @ ys) \<and> length ys = unat k"
    using fk f0 lys by blast
  define cap where "cap = take (unat (d_size t0)) (d_data t0)"
  have cap: "cap = take (unat n) ?d"
    by (simp add: cap_def s0 data)
  have len: "length cap = unat n"
    using n(5) by (simp add: cap)
  have sum: "unat n = unat k + unat (d_size tk)"
    using n(3,7) by simp
  have i0: "index_NT t0 (of_nat i) = Inr (cap ! (length cap - 1 - i))" if i: "i < length cap" for i
  proof -
    have "i < unat (d_size t0)"
      using i len s0 by simp
    then have "index_NT t0 (of_nat i) = Inr (d_data t0 ! (unat (d_skip t0) + unat (d_size t0) - 1 - i))"
      by (rule index_after_fill(1) [OF assms(2)])
    moreover have "cap ! (length cap - 1 - i) = ?d ! (unat n - 1 - i)"
      using i len by (simp add: cap)
    ultimately show ?thesis
      using n0(3) s0 data len by simp
  qed
  have ik: "index_NT tk (of_nat i) = Inr (cap ! (length cap - 1 - i))" if "i < length cap - unat k" for i
    using i0 [of i] that ix [of "of_nat i"] by simp
  have ne: "cap \<noteq> []"
    using len sum sk by auto
  have l0: "index_NT t0 0 = Inr (last cap)"
    using i0 [of 0] ne by (simp add: last_conv_nth)
  then have lk: "index_NT tk 0 = Inr (last cap)"
    using ix [of 0] by simp
  have atk: "index_NT t0 k = Inr (cap ! (length cap - 1 - unat k))"
  proof -
    have "unat k < length cap"
      using len sum sk by simp
    then show ?thesis
      using i0 [of "unat k"] by simp
  qed
  have fr0: "frames t0 = Inr (rev cap)"
    using f0' by (simp add: cap)
  have "drop (unat k) cap = take (unat (d_size tk)) (drop (unat k) ?d)"
    using sum by (simp add: cap drop_take)
  then have frk: "frames tk = Inr (rev (drop (unat k) cap))"
    using fk by simp
  have app: "rev cap = rev (drop (unat k) cap) @ rev (take (unat k) cap)"
    using append_take_drop_id [of "unat k" cap] rev_append [of "take (unat k) cap" "drop (unat k) cap"]
    by simp
  have tk: "take (unat k) cap = take (unat k) ?d"
    using sum by (simp add: cap min_def)
  have ltk: "length (take (unat k) cap) = unat k"
    using len sum by simp
  let ?ips = "unw_backtrace env (int_of_size_t (MAX_SIZE w))"
  let ?w1 = "w\<lparr>unw_calls := unw_calls w @ [Call_backtrace (int_of_size_t (MAX_SIZE w))]\<rparr>"
  note c = fill_unwind_cases [OF n(1)]
  have lt: "length ?ips < 2 ^ 31"
    by (rule length_unw_backtrace_lt)
  have tr: "size_t_of_int (int (length ?ips)) = MAX_SIZE w \<longleftrightarrow> int (length ?ips) = uint (MAX_SIZE w)"
    by (rule size_t_of_int_eq_iff [OF lt])
  have fast: "cap = ?ips" if "int (length ?ips) \<noteq> uint (MAX_SIZE w)"
  proof -
    have "n = size_t_of_int (int (length ?ips))"
      and "tk\<lparr>d_size := d_size t, d_skip := d_skip t\<rparr> = t\<lparr>d_data := ?ips @ drop (length ?ips) (d_data t)\<rparr>"
      using c tr that by simp_all
    then have "unat n = length ?ips" and "?d = ?ips @ drop (length ?ips) (d_data t)"
      using unat_size_t_of_int [OF lt] arg_cong [of _ _ d_data] by (simp, fastforce)
    then show ?thesis
      by (simp add: cap)
  qed
  have exact: "cap = ips" if tt: "int (length ?ips) = uint (MAX_SIZE w)"
    and rc: "0 \<le> getcontext_rc env" "0 \<le> init_local_rc env"
    and ci: "cursor_ips (cursor env) = Some ips" and li: "length ips < 2 ^ 64"
  proof -
    obtain w2 d where e: "exact_unwind env ?w1 [] = (n, w2, d)"
      and tk': "tk\<lparr>d_size := d_size t, d_skip := d_skip t\<rparr> = t\<lparr>d_data := resize (unat (max (MAX_SIZE w * 2) n)) d\<rparr>"
      using c tr tt by auto
    obtain w3 where "exact_unwind env ?w1 [] = (of_nat (length ips), w3, ips)"
      using exact_unwind_depth [OF rc ci, of ?w1] by blast
    then have nd: "n = of_nat (length ips)" "d = ips"
      using e by simp_all
    have un: "unat n = length ips"
      using li by (simp add: nd unsigned_of_nat take_bit_nat_eq_self_iff)
    have "?d = resize (unat (max (MAX_SIZE w * 2) n)) ips"
      using arg_cong [OF tk', of d_data] nd by simp
    moreover have "unat n \<le> unat (max (MAX_SIZE w * 2) n)"
      by (simp add: word_le_nat_alt [symmetric])
    ultimately show ?thesis
      using un by (simp add: cap resize_def)
  qed
  have "cap = take (unat (d_size t0)) (d_data t0) \<and>
        d_data tk = d_data t0 \<and> d_skip t0 = 0 \<and> d_skip tk = k \<and>
        length cap = unat (d_size t0) \<and>
        unat (d_size t0) = unat k + unat (d_size tk) \<and> 0 < unat (d_size tk) \<and>
        (\<forall>i < length cap. index_NT t0 (of_nat i) = Inr (cap ! (length cap - 1 - i))) \<and>
        (\<forall>i < length cap - unat k. index_NT tk (of_nat i) = Inr (cap ! (length cap - 1 - i))) \<and>
        index_NT tk 0 = Inr (last cap) \<and> index_NT t0 0 = Inr (last cap) \<and>
        index_NT t0 k = Inr (cap ! (length cap - 1 - unat k)) \<and>
        frames t0 = Inr (rev cap) \<and>
        frames tk = Inr (rev (drop (unat k) cap)) \<and>
        rev cap = rev (drop (unat k) cap) @ rev (take (unat k) cap) \<and>
        take (unat k) cap = take (unat k) (d_data tk) \<and>
        length (take (unat k) cap) = unat k \<and>
        (int (length ?ips) \<noteq> uint (MAX_SIZE w) \<longrightarrow> cap = ?ips) \<and>
        (int (length ?ips) = uint (MAX_SIZE w) \<and>
         0 \<le> getcontext_rc env \<and> 0 \<le> init_local_rc env \<and>
         cursor_ips (cursor env) = Some ips \<and> length ips < 2 ^ 64 \<longrightarrow> cap = ips)"
    using cap_def data n0(3) n(3) len s0 sum sk i0 ik lk l0 atk fr0 frk app tk ltk fast exact
    by (intro conjI allI impI) (simp_all)
  then show ?thesis
    using r0 ix first old by blast
qed

theorem skip_drops_innermost_witness:
  "fill depth3 1 (ctx 4) trace4 =
     Inr (True, \<lparr>MAX_SIZE = 4, cerr = [], unw_calls = [Call_backtrace 4]\<rparr>,
          \<lparr>d_size = 2, d_skip = 1, d_data = [10, 20, 30, 0]\<rparr>) \<and>
   fill depth3 0 (ctx 4) trace4 =
     Inr (True, \<lparr>MAX_SIZE = 4, cerr = [], unw_calls = [Call_backtrace 4]\<rparr>,
          \<lparr>d_size = 3, d_skip = 0, d_data = [10, 20, 30, 0]\<rparr>) \<and>
   int (length (unw_backtrace depth3 (int_of_size_t (MAX_SIZE (ctx 4))))) \<noteq> uint (MAX_SIZE (ctx 4)) \<and>
   unw_backtrace depth3 (int_of_size_t (MAX_SIZE (ctx 4))) = [10, 20, 30] \<and>
   index_NT \<lparr>d_size = 2, d_skip = 1, d_data = [10, 20, 30, 0]\<rparr> 0 = Inr 30 \<and>
   index_NT \<lparr>d_size = 3, d_skip = 0, d_data = [10, 20, 30, 0]\<rparr> 0 = Inr 30 \<and>
   index_NT \<lparr>d_size = 2, d_skip = 1, d_data = [10, 20, 30, 0]\<rparr> 1 = Inr 20 \<and>
   index_NT \<lparr>d_size = 3, d_skip = 0, d_data = [10, 20, 30, 0]\<rparr> 1 = Inr 20 \<and>
   index_NT \<lparr>d_size = 3, d_skip = 0, d_data = [10, 20, 30, 0]\<rparr> 2 = Inr 10 \<and>
   frames \<lparr>d_size = 2, d_skip = 1, d_data = [10, 20, 30, 0]\<rparr> = Inr [30, 20] \<and>
   frames \<lparr>d_size = 3, d_skip = 0, d_data = [10, 20, 30, 0]\<rparr> = Inr ([30, 20] @ [10]) \<and>
   fill depth3 1 (ctx 3) trace3 =
     Inr (True, \<lparr>MAX_SIZE = 6, cerr = [],
                 unw_calls = [Call_backtrace 3, Call_getcontext, Call_init_local,
                              Call_get_reg, Call_step, Call_get_reg, Call_step, Call_get_reg, Call_step]\<rparr>,
          \<lparr>d_size = 2, d_skip = 1, d_data = [10, 20, 30, 0, 0, 0]\<rparr>) \<and>
   fill depth3 0 (ctx 3) trace3 =
     Inr (True, \<lparr>MAX_SIZE = 6, cerr = [],
                 unw_calls = [Call_backtrace 3, Call_getcontext, Call_init_local,
                              Call_get_reg, Call_step, Call_get_reg, Call_step, Call_get_reg, Call_step]\<rparr>,
          \<lparr>d_size = 3, d_skip = 0, d_data = [10, 20, 30, 0, 0, 0]\<rparr>) \<and>
   int (length (unw_backtrace depth3 (int_of_size_t (MAX_SIZE (ctx 3))))) = uint (MAX_SIZE (ctx 3)) \<and>
   0 \<le> getcontext_rc depth3 \<and> 0 \<le> init_local_rc depth3 \<and>
   cursor_ips (cursor depth3) = Some [10, 20, 30] \<and> length [10, 20, 30 :: ip_t] < 2 ^ 64 \<and>
   take (unat (3 :: size_t)) [10, 20, 30, 0, 0, 0 :: ip_t] = [10, 20, 30] \<and>
   index_NT \<lparr>d_size = 2, d_skip = 1, d_data = [10, 20, 30, 0, 0, 0]\<rparr> 0 = Inr 30"
proof -
  let ?tk = "\<lparr>d_size = 2, d_skip = 1, d_data = [10, 20, 30, 0]\<rparr>"
  let ?t0 = "\<lparr>d_size = 3, d_skip = 0, d_data = [10, 20, 30, 0]\<rparr>"
  let ?uk = "\<lparr>d_size = 2, d_skip = 1, d_data = [10, 20, 30, 0, 0, 0]\<rparr>"
  let ?u0 = "\<lparr>d_size = 3, d_skip = 0, d_data = [10, 20, 30, 0, 0, 0]\<rparr>"
  have h4: "int (length (unw_backtrace depth3 (int_of_size_t (MAX_SIZE (ctx 4))))) \<noteq> uint (MAX_SIZE (ctx 4))"
    by (simp add: unw_backtrace_def int_of_size_t_def depth3_def ctx_def)
  have h3: "int (length (unw_backtrace depth3 (int_of_size_t (MAX_SIZE (ctx 3))))) = uint (MAX_SIZE (ctx 3))"
    by (simp add: unw_backtrace_def int_of_size_t_def depth3_def ctx_def)
  have rc: "0 \<le> getcontext_rc depth3" "0 \<le> init_local_rc depth3"
    and ci: "cursor_ips (cursor depth3) = Some [10, 20, 30]"
    by (simp_all add: depth3_def)
  have li: "length [10, 20, 30 :: ip_t] < 2 ^ 64"
    by simp
  obtain cap where cap: "cap = take (unat (d_size ?t0)) (d_data ?t0)"
    and ik: "\<forall>i < length cap - unat (1 :: size_t). index_NT ?tk (of_nat i) = Inr (cap ! (length cap - 1 - i))"
    and i0: "\<forall>i < length cap. index_NT ?t0 (of_nat i) = Inr (cap ! (length cap - 1 - i))"
    and fk: "frames ?tk = Inr (rev (drop (unat (1 :: size_t)) cap))"
    and f0: "frames ?t0 = Inr (rev cap)"
    and fast: "int (length (unw_backtrace depth3 (int_of_size_t (MAX_SIZE (ctx 4))))) \<noteq> uint (MAX_SIZE (ctx 4))
                \<longrightarrow> cap = unw_backtrace depth3 (int_of_size_t (MAX_SIZE (ctx 4)))"
    using skip_drops_innermost [OF fill_depth3_skip1 fill_depth3_skip0] by blast
  have t4: "take 3 [10, 20, 30, 0 :: ip_t] = [10, 20, 30]"
    and t6: "take 3 [10, 20, 30, 0, 0, 0 :: ip_t] = [10, 20, 30]"
    by (simp_all add: eval_nat_numeral)
  have c: "cap = [10, 20, 30]"
    using cap t4 by simp
  have bt: "unw_backtrace depth3 (int_of_size_t (MAX_SIZE (ctx 4))) = [10, 20, 30]"
    using fast h4 c by simp
  have a: "index_NT ?tk 0 = Inr 30" "index_NT ?tk 1 = Inr 20"
    using ik [rule_format, of 0] ik [rule_format, of 1] c by simp_all
  have b: "index_NT ?t0 0 = Inr 30" "index_NT ?t0 1 = Inr 20" "index_NT ?t0 2 = Inr 10"
    using i0 [rule_format, of 0] i0 [rule_format, of 1] i0 [rule_format, of 2] c by simp_all
  have fr: "frames ?tk = Inr [30, 20]" "frames ?t0 = Inr [30, 20, 10]"
    using fk f0 c by simp_all
  obtain cap' where cap': "cap' = take (unat (d_size ?u0)) (d_data ?u0)"
    and lk: "index_NT ?uk 0 = Inr (last cap')"
    and exact: "int (length (unw_backtrace depth3 (int_of_size_t (MAX_SIZE (ctx 3))))) = uint (MAX_SIZE (ctx 3)) \<and>
             0 \<le> getcontext_rc depth3 \<and> 0 \<le> init_local_rc depth3 \<and>
             cursor_ips (cursor depth3) = Some [10, 20, 30] \<and> length [10, 20, 30 :: ip_t] < 2 ^ 64
             \<longrightarrow> cap' = [10, 20, 30]"
    using skip_drops_innermost [OF fill_depth3_truncated fill_depth3_truncated_skip0, of "[10, 20, 30]"]
    by blast
  have c': "cap' = [10, 20, 30]"
    using exact h3 rc ci li by blast
  have tk: "take (unat (3 :: size_t)) [10, 20, 30, 0, 0, 0 :: ip_t] = [10, 20, 30]"
    using cap' c' by simp
  have e: "index_NT ?uk 0 = Inr 30"
    using lk c' by simp
  show ?thesis
    using fill_depth3_skip1 fill_depth3_skip0 h4 bt a b fr
      fill_depth3_truncated fill_depth3_truncated_skip0 h3 rc ci tk e
    by simp
qed

subsection \<open>Growth of the capacity\<close>

lemma fill_capacity:
  assumes "fill env skip w t = Inr (r, w', t')"
  defines "rc \<equiv> int (length (unw_backtrace env (int_of_size_t (MAX_SIZE w))))"
  shows "unwind env w (d_data t) =
           Inr (rc, w\<lparr>unw_calls := unw_calls w @ [Call_backtrace (int_of_size_t (MAX_SIZE w))]\<rparr>,
                unw_backtrace env (int_of_size_t (MAX_SIZE w)) @
                drop (length (unw_backtrace env (int_of_size_t (MAX_SIZE w)))) (d_data t))"
    and "Call_getcontext \<in> set (calls_during w w') \<longleftrightarrow> rc = uint (MAX_SIZE w)"
    and "rc = uint (MAX_SIZE w) \<Longrightarrow>
           MAX_SIZE w' = max (MAX_SIZE w * 2) (fst (exact_unwind env w [])) \<and>
           unat (MAX_SIZE w') = max (2 * unat (MAX_SIZE w)) (unat (fst (exact_unwind env w [])))"
    and "rc \<noteq> uint (MAX_SIZE w) \<Longrightarrow> MAX_SIZE w' = MAX_SIZE w"
    and "MAX_SIZE w \<le> MAX_SIZE w'"
proof -
  let ?n = "int_of_size_t (MAX_SIZE w)"
  let ?ips = "unw_backtrace env ?n"
  let ?w1 = "w\<lparr>unw_calls := unw_calls w @ [Call_backtrace ?n]\<rparr>"
  obtain n where u: "fill_unwind env w t = Inr (n, w', t'\<lparr>d_size := d_size t, d_skip := d_skip t\<rparr>)"
    using fill_Inr [OF assms(1)] by blast
  note c = fill_unwind_cases [OF u]
  have lt: "length ?ips < 2 ^ 31"
    by (rule length_unw_backtrace_lt)
  have tr: "size_t_of_int (int (length ?ips)) = MAX_SIZE w \<longleftrightarrow> rc = uint (MAX_SIZE w)"
    unfolding rc_def by (rule size_t_of_int_eq_iff [OF lt])
  show "unwind env w (d_data t) = Inr (rc, ?w1, ?ips @ drop (length ?ips) (d_data t))"
    using c by (simp add: unwind_def Let_def rc_def)
  show "MAX_SIZE w \<le> MAX_SIZE w'"
    by (rule fill_unwind_props(4) [OF u])
  show "Call_getcontext \<in> set (calls_during w w') \<longleftrightarrow> rc = uint (MAX_SIZE w)"
  proof (cases "rc = uint (MAX_SIZE w)")
    case True
    then obtain w2 d where e: "exact_unwind env ?w1 [] = (n, w2, d)"
      and w': "w' = w2\<lparr>MAX_SIZE := max (MAX_SIZE w * 2) n\<rparr>"
      using c tr by auto
    obtain cs where "unw_calls w2 = unw_calls ?w1 @ Call_getcontext # cs"
      using exact_unwind_calls [OF e] by blast
    then show ?thesis
      using True w' by (simp add: calls_during_def)
  next
    case False
    then have "w' = ?w1"
      using c tr by auto
    then show ?thesis
      using False by (simp add: calls_during_def)
  qed
  show "MAX_SIZE w' = max (MAX_SIZE w * 2) (fst (exact_unwind env w [])) \<and>
       unat (MAX_SIZE w') = max (2 * unat (MAX_SIZE w)) (unat (fst (exact_unwind env w [])))"
    if "rc = uint (MAX_SIZE w)"
  proof -
    have t: "size_t_of_int (int (length ?ips)) = MAX_SIZE w"
      using that tr by simp
    then obtain w2 d where e: "exact_unwind env ?w1 [] = (n, w2, d)"
      and w': "w' = w2\<lparr>MAX_SIZE := max (MAX_SIZE w * 2) n\<rparr>"
      using c by auto
    have "fst (exact_unwind env w []) = n"
      using exact_unwind_fst [of env w "[]" ?w1] e by simp
    then show ?thesis
      using w' grow_unat [OF truncated_capacity_small [OF t], of n] by simp
  qed
  show "MAX_SIZE w' = MAX_SIZE w" if "rc \<noteq> uint (MAX_SIZE w)"
    using c tr that by auto
qed

text \<open>
  C2. In a \<^verbatim>\<open>fill\<close> that returns, the exact unwind is performed (\<^verbatim>\<open>unw_getcontext\<close> is
  called) if and only if the count that the fast unwind returned equals the capacity
  \<^verbatim>\<open>MAX_SIZE\<close>; when it is performed the new capacity is the maximum of twice the old one
  and the count the exact unwind returned, without wrap-around, and otherwise the capacity
  is unchanged. \<open>fst (exact_unwind env w [])\<close> is the count the exact unwind returns when
  started on the emptied vector.
\<close>

theorem exact_unwind_iff_truncated:
  assumes "fill env skip w t = Inr (r, w', t')"
  shows "\<exists>rc w1 buf. unwind env w (d_data t) = Inr (rc, w1, buf) \<and>
           (Call_getcontext \<in> set (calls_during w w') \<longleftrightarrow> rc = uint (MAX_SIZE w)) \<and>
           (if Call_getcontext \<in> set (calls_during w w')
            then MAX_SIZE w' = max (MAX_SIZE w * 2) (fst (exact_unwind env w [])) \<and>
                 unat (MAX_SIZE w') = max (2 * unat (MAX_SIZE w)) (unat (fst (exact_unwind env w [])))
            else MAX_SIZE w' = MAX_SIZE w)"
proof -
  let ?rc = "int (length (unw_backtrace env (int_of_size_t (MAX_SIZE w))))"
  note c = fill_capacity [OF assms]
  show ?thesis
  proof (cases "?rc = uint (MAX_SIZE w)")
    case True
    then have "Call_getcontext \<in> set (calls_during w w')"
      using c(2) by simp
    then show ?thesis
      using c(1) c(3) [OF True] True by fastforce
  next
    case False
    then have "Call_getcontext \<notin> set (calls_during w w')"
      using c(2) by simp
    then show ?thesis
      using c(1) c(4) [OF False] False by fastforce
  qed
qed

theorem exact_unwind_iff_truncated_witness:
  "fill depth3 1 (ctx 3) trace3 =
     Inr (True, \<lparr>MAX_SIZE = 6, cerr = [],
                 unw_calls = [Call_backtrace 3, Call_getcontext, Call_init_local,
                              Call_get_reg, Call_step, Call_get_reg, Call_step, Call_get_reg, Call_step]\<rparr>,
          \<lparr>d_size = 2, d_skip = 1, d_data = [10, 20, 30, 0, 0, 0]\<rparr>) \<and>
   unwind depth3 (ctx 3) (d_data trace3) =
     Inr (3, \<lparr>MAX_SIZE = 3, cerr = [], unw_calls = [Call_backtrace 3]\<rparr>, [10, 20, 30]) \<and>
   fst (exact_unwind depth3 (ctx 3) []) = 3 \<and>
   unat (6 :: size_t) = max (2 * unat (MAX_SIZE (ctx 3))) (unat (fst (exact_unwind depth3 (ctx 3) [])))"
proof -
  let ?w' = "\<lparr>MAX_SIZE = 6, cerr = [],
                 unw_calls = [Call_backtrace 3, Call_getcontext, Call_init_local,
                              Call_get_reg, Call_step, Call_get_reg, Call_step, Call_get_reg, Call_step]\<rparr>"
  have calls: "Call_getcontext \<in> set (calls_during (ctx 3) ?w')"
    by (simp add: calls_during_def ctx_def)
  have "unat (MAX_SIZE ?w') = max (2 * unat (MAX_SIZE (ctx 3))) (unat (fst (exact_unwind depth3 (ctx 3) [])))"
    using exact_unwind_iff_truncated [OF fill_depth3_truncated] calls by auto
  moreover have "unwind depth3 (ctx 3) (d_data trace3) =
     Inr (3, \<lparr>MAX_SIZE = 3, cerr = [], unw_calls = [Call_backtrace 3]\<rparr>, [10, 20, 30])"
    by (simp add: unwind_def int_of_size_t_def unw_backtrace_def depth3_def ctx_def trace3_def Let_def)
  moreover have "fst (exact_unwind depth3 (ctx 3) []) = 3"
    by (simp add: exact_unwind_def depth3_def ctx_def Let_def)
  ultimately show ?thesis
    using fill_depth3_truncated by simp
qed

subsection \<open>Sequences of captures\<close>

lemma NativeTrace_init_length: "length (d_data (NativeTrace_init w)) = unat (MAX_SIZE w)"
  by (simp add: NativeTrace_init_def length_resize)

lemma fill_total:
  assumes "length (d_data t) = unat (MAX_SIZE w)"
  shows "\<exists>r w' t'. fill env skip w t = Inr (r, w', t') \<and> length (d_data t') = unat (MAX_SIZE w')"
proof -
  obtain n w' t0 where u: "fill_unwind env w t = Inr (n, w', t0)"
    using fill_unwind_total [OF assms] by blast
  have "length (d_data t0) = unat (MAX_SIZE w')"
    by (rule fill_unwind_props(5) [OF u assms])
  then show ?thesis
    using u by (simp add: fill_def Let_def)
qed

lemma sorted_Cons_le:
  fixes a b :: size_t
  shows "a \<le> b \<Longrightarrow> sorted (b # xs) \<Longrightarrow> sorted (a # b # xs)"
  by (auto intro: order_trans)

lemma run_sorted: "sorted (MAX_SIZE w # map (MAX_SIZE \<circ> fst) (run ops w t))"
proof (induction ops arbitrary: w t)
  case Nil
  then show ?case by simp
next
  case (Cons a ops)
  show ?case
  proof (cases a)
    case Construct
    then show ?thesis
      using Cons.IH [of w "NativeTrace_init w"] by simp
  next
    case (Fill env skip)
    show ?thesis
    proof (cases "fill env skip w t")
      case (Inl f)
      then show ?thesis using Fill by simp
    next
      case (Inr res)
      obtain r w' t' where res: "res = (r, w', t')"
        by (cases res) auto
      have "MAX_SIZE w \<le> MAX_SIZE w'"
        using fill_capacity(5) [of env skip w t r w' t'] Inr res by simp
      moreover have "run (a # ops) w t = (w', t') # run ops w' t'"
        using Fill Inr res by simp
      ultimately show ?thesis
        using sorted_Cons_le [OF _ Cons.IH [of w' t']] by simp
    qed
  qed
qed

lemma run_complete:
  "length (d_data t) = unat (MAX_SIZE w) \<Longrightarrow> length (run ops w t) = length ops"
proof (induction ops arbitrary: w t)
  case Nil
  then show ?case by simp
next
  case (Cons a ops)
  show ?case
  proof (cases a)
    case Construct
    then show ?thesis
      using Cons.IH [OF NativeTrace_init_length] by simp
  next
    case (Fill env skip)
    obtain r w' t' where f: "fill env skip w t = Inr (r, w', t')"
      and inv: "length (d_data t') = unat (MAX_SIZE w')"
      using fill_total [OF Cons.prems] by blast
    then show ?thesis
      using Cons.IH [OF inv] Fill by simp
  qed
qed

text \<open>
  C3. When a \<^verbatim>\<open>fill\<close> performs the exact unwind, the capacity afterwards is at least
  the depth the exact unwind returned; over any further sequence of operations of the
  thread the capacities after each operation never decrease (so all of them stay at least
  that depth), and the sequence runs to its end when the object had \<^verbatim>\<open>MAX_SIZE\<close>
  elements.
\<close>

theorem capacity_never_decreases:
  assumes "fill env skip w t = Inr (r, w1, t1)"
    and "Call_getcontext \<in> set (calls_during w w1)"
  shows "fst (exact_unwind env w []) \<le> MAX_SIZE w1 \<and>
         sorted (MAX_SIZE w1 # map (MAX_SIZE \<circ> fst) (run ops w1 t1)) \<and>
         (\<forall>s \<in> set (run ops w1 t1). fst (exact_unwind env w []) \<le> MAX_SIZE (fst s)) \<and>
         (length (d_data t) = unat (MAX_SIZE w) \<longrightarrow> length (run ops w1 t1) = length ops)"
proof -
  let ?d = "fst (exact_unwind env w [])"
  have tr: "int (length (unw_backtrace env (int_of_size_t (MAX_SIZE w)))) = uint (MAX_SIZE w)"
    using fill_capacity(2) [OF assms(1)] assms(2) by simp
  have d: "?d \<le> MAX_SIZE w1"
    using fill_capacity(3) [OF assms(1) tr] by simp
  have s: "sorted (MAX_SIZE w1 # map (MAX_SIZE \<circ> fst) (run ops w1 t1))"
    by (rule run_sorted)
  then have "\<forall>s \<in> set (run ops w1 t1). MAX_SIZE w1 \<le> MAX_SIZE (fst s)"
    by simp
  then have all: "\<forall>s \<in> set (run ops w1 t1). ?d \<le> MAX_SIZE (fst s)"
    using d by (meson order_trans)
  have "length (run ops w1 t1) = length ops" if inv: "length (d_data t) = unat (MAX_SIZE w)"
  proof -
    obtain r' w' t' where "fill env skip w t = Inr (r', w', t')"
      and "length (d_data t') = unat (MAX_SIZE w')"
      using fill_total [OF inv] by blast
    then have "length (d_data t1) = unat (MAX_SIZE w1)"
      using assms(1) by simp
    then show ?thesis
      by (rule run_complete)
  qed
  then show ?thesis
    using d s all by blast
qed

theorem capacity_never_decreases_witness:
  "fill depth3 1 (ctx 3) trace3 =
     Inr (True, \<lparr>MAX_SIZE = 6, cerr = [],
                 unw_calls = [Call_backtrace 3, Call_getcontext, Call_init_local,
                              Call_get_reg, Call_step, Call_get_reg, Call_step, Call_get_reg, Call_step]\<rparr>,
          \<lparr>d_size = 2, d_skip = 1, d_data = [10, 20, 30, 0, 0, 0]\<rparr>) \<and>
   Call_getcontext \<in> set (calls_during (ctx 3)
      \<lparr>MAX_SIZE = 6, cerr = [],
        unw_calls = [Call_backtrace 3, Call_getcontext, Call_init_local,
                     Call_get_reg, Call_step, Call_get_reg, Call_step, Call_get_reg, Call_step]\<rparr>) \<and>
   fst (exact_unwind depth3 (ctx 3) []) = 3 \<and>
   length (d_data trace3) = unat (MAX_SIZE (ctx 3)) \<and>
   length (run [Construct, Fill depth3 0]
        \<lparr>MAX_SIZE = 6, cerr = [],
          unw_calls = [Call_backtrace 3, Call_getcontext, Call_init_local,
                       Call_get_reg, Call_step, Call_get_reg, Call_step, Call_get_reg, Call_step]\<rparr>
        \<lparr>d_size = 2, d_skip = 1, d_data = [10, 20, 30, 0, 0, 0]\<rparr>) = 2 \<and>
   map (MAX_SIZE \<circ> fst)
     (run [Construct, Fill depth3 0]
        \<lparr>MAX_SIZE = 6, cerr = [],
          unw_calls = [Call_backtrace 3, Call_getcontext, Call_init_local,
                       Call_get_reg, Call_step, Call_get_reg, Call_step, Call_get_reg, Call_step]\<rparr>
        \<lparr>d_size = 2, d_skip = 1, d_data = [10, 20, 30, 0, 0, 0]\<rparr>) = [6, 6]"
proof -
  let ?w1 = "\<lparr>MAX_SIZE = 6, cerr = [],
        unw_calls = [Call_backtrace 3, Call_getcontext, Call_init_local,
                     Call_get_reg, Call_step, Call_get_reg, Call_step, Call_get_reg, Call_step]\<rparr>"
  let ?t1 = "\<lparr>d_size = 2, d_skip = 1, d_data = [10, 20, 30, 0, 0, 0]\<rparr>"
  let ?ops = "[Construct, Fill depth3 0]"
  have calls: "Call_getcontext \<in> set (calls_during (ctx 3) ?w1)"
    by (simp add: calls_during_def ctx_def)
  have inv: "length (d_data trace3) = unat (MAX_SIZE (ctx 3))"
    by (simp add: trace3_def ctx_def)
  have d: "fst (exact_unwind depth3 (ctx 3) []) = 3"
    by (simp add: exact_unwind_def depth3_def ctx_def Let_def)
  note c = capacity_never_decreases [OF fill_depth3_truncated calls, of ?ops]
  have len: "length (run ?ops ?w1 ?t1) = 2"
    using c inv by simp
  have "replicate 6 (0 :: ip_t) = [0, 0, 0, 0, 0, 0]"
    by (simp add: eval_nat_numeral)
  then have "map (MAX_SIZE \<circ> fst) (run ?ops ?w1 ?t1) = [6, 6]"
    by (simp add: NativeTrace_init_def resize_def fill_def fill_unwind_def unwind_def
        int_of_size_t_def size_t_of_int_def unw_backtrace_def depth3_def Let_def)
  then show ?thesis
    using calls inv d len fill_depth3_truncated by simp
qed

subsection \<open>Failure of the unwinding facility\<close>

lemma exact_unwind_no_context:
  assumes "getcontext_rc env < 0 \<or> init_local_rc env < 0"
  shows "\<exists>w'. exact_unwind env w d = (0, w', d) \<and> MAX_SIZE w' = MAX_SIZE w \<and>
           cerr w' = cerr w @
             [if getcontext_rc env < 0 then ''WARNING: Failed to initialize libunwind's context''
              else ''WARNING: Failed to initialize libunwind's cursor'']"
  using assms by (auto simp: exact_unwind_def Let_def)

text \<open>
  C4. Let the fast unwind fill the buffer, so that the exact unwind runs, and let
  \<^verbatim>\<open>unw_getcontext\<close> or \<^verbatim>\<open>unw_init_local\<close> fail. Then \<^verbatim>\<open>fill\<close> still returns: it
  returns false, \<^verbatim>\<open>size()\<close> is 0, the traversal visits nothing, and exactly one warning
  line has been written to \<^verbatim>\<open>std::cerr\<close>.
\<close>

theorem unwind_failure_gives_empty_capture:
  assumes "length (d_data t) = unat (MAX_SIZE w)"
    and "int (length (unw_backtrace env (int_of_size_t (MAX_SIZE w)))) = uint (MAX_SIZE w)"
    and "getcontext_rc env < 0 \<or> init_local_rc env < 0"
  shows "\<exists>w' t'. fill env skip w t = Inr (False, w', t') \<and>
           size_NT t' = 0 \<and> frames t' = Inr [] \<and>
           cerr w' = cerr w @
             [if getcontext_rc env < 0 then ''WARNING: Failed to initialize libunwind's context''
              else ''WARNING: Failed to initialize libunwind's cursor'']"
proof -
  let ?n = "int_of_size_t (MAX_SIZE w)"
  let ?w1 = "w\<lparr>unw_calls := unw_calls w @ [Call_backtrace ?n]\<rparr>"
  let ?msg = "if getcontext_rc env < 0 then ''WARNING: Failed to initialize libunwind's context''
              else ''WARNING: Failed to initialize libunwind's cursor''"
  obtain r w' t' where f: "fill env skip w t = Inr (r, w', t')"
    using fill_total [OF assms(1)] by blast
  obtain n where u: "fill_unwind env w t = Inr (n, w', t'\<lparr>d_size := d_size t, d_skip := d_skip t\<rparr>)"
    and r: "r = (skip < n)" and ds: "d_size t' = (if skip < n then n - skip else 0)"
    using fill_Inr [OF f] by blast
  have tr: "size_t_of_int (int (length (unw_backtrace env ?n))) = MAX_SIZE w"
    by (rule iffD2 [OF size_t_of_int_eq_iff [OF length_unw_backtrace_lt] assms(2)])
  obtain w2 d where e: "exact_unwind env ?w1 [] = (n, w2, d)"
    and w': "w' = w2\<lparr>MAX_SIZE := max (MAX_SIZE w * 2) n\<rparr>"
    using fill_unwind_cases [OF u] tr by auto
  obtain w3 where e3: "exact_unwind env ?w1 [] = (0, w3, [])" and c3: "cerr w3 = cerr ?w1 @ [?msg]"
    using exact_unwind_no_context [OF assms(3), of ?w1 "[]"] by blast
  have n: "n = 0" and "w2 = w3"
    using e e3 by simp_all
  then have cerr: "cerr w' = cerr w @ [?msg]"
    using w' c3 by simp
  have "\<not> skip < n"
    using n by simp
  then have "r = False" and z: "d_size t' = 0"
    using r ds by simp_all
  moreover have "size_NT t' = 0"
    using z by (simp add: size_NT_def int_of_size_t_def)
  moreover have "frames t' = Inr []"
    using z by (simp add: frames_def begin_NT_def end_NT_def traverse_empty)
  ultimately show ?thesis
    using f cerr by blast
qed

lemma fill_depth3_no_context:
  "fill depth3_no_context 1 (ctx 3) trace3 =
     Inr (False,
          \<lparr>MAX_SIZE = 6, cerr = [''WARNING: Failed to initialize libunwind's context''],
            unw_calls = [Call_backtrace 3, Call_getcontext]\<rparr>,
          \<lparr>d_size = 0, d_skip = 1, d_data = [0, 0, 0, 0, 0, 0]\<rparr>)"
proof -
  have "replicate 6 (0 :: ip_t) = [0, 0, 0, 0, 0, 0]"
    by (simp add: eval_nat_numeral)
  then show ?thesis
    by (simp add: fill_def fill_unwind_def unwind_def exact_unwind_def int_of_size_t_def
        size_t_of_int_def unw_backtrace_def depth3_no_context_def depth3_def ctx_def trace3_def
        resize_def Let_def)
qed

theorem unwind_failure_gives_empty_capture_witness:
  "length (d_data trace3) = unat (MAX_SIZE (ctx 3)) \<and>
   int (length (unw_backtrace depth3_no_context (int_of_size_t (MAX_SIZE (ctx 3))))) = uint (MAX_SIZE (ctx 3)) \<and>
   getcontext_rc depth3_no_context < 0 \<and>
   fill depth3_no_context 1 (ctx 3) trace3 =
     Inr (False,
          \<lparr>MAX_SIZE = 6, cerr = [''WARNING: Failed to initialize libunwind's context''],
            unw_calls = [Call_backtrace 3, Call_getcontext]\<rparr>,
          \<lparr>d_size = 0, d_skip = 1, d_data = [0, 0, 0, 0, 0, 0]\<rparr>) \<and>
   size_NT \<lparr>d_size = 0, d_skip = 1, d_data = [0, 0, 0, 0, 0, 0]\<rparr> = 0 \<and>
   frames \<lparr>d_size = 0, d_skip = 1, d_data = [0, 0, 0, 0, 0, 0]\<rparr> = Inr []"
proof -
  have h1: "length (d_data trace3) = unat (MAX_SIZE (ctx 3))"
    by (simp add: trace3_def ctx_def)
  have h2: "int (length (unw_backtrace depth3_no_context (int_of_size_t (MAX_SIZE (ctx 3))))) =
      uint (MAX_SIZE (ctx 3))"
    by (simp add: unw_backtrace_def int_of_size_t_def depth3_no_context_def depth3_def ctx_def)
  have h3: "getcontext_rc depth3_no_context < 0"
    by (simp add: depth3_no_context_def depth3_def)
  then have h3': "getcontext_rc depth3_no_context < 0 \<or> init_local_rc depth3_no_context < 0"
    by simp
  obtain w' t' where f: "fill depth3_no_context 1 (ctx 3) trace3 = Inr (False, w', t')"
    and s: "size_NT t' = 0" and fr: "frames t' = Inr []"
    using unwind_failure_gives_empty_capture [OF h1 h2 h3', of 1] by blast
  have "t' = \<lparr>d_size = 0, d_skip = 1, d_data = [0, 0, 0, 0, 0, 0]\<rparr>"
    using f fill_depth3_no_context by simp
  then show ?thesis
    using h1 h2 h3 s fr fill_depth3_no_context by simp
qed

section \<open>Properties of the Tracker entry points\<close>

subsection \<open>The forwarding functions\<close>

text \<open>
  C5. Whatever \<^verbatim>\<open>getTracker\<close> and the \<^verbatim>\<open>...Impl\<close> members are: when \<^verbatim>\<open>getTracker\<close>
  returns null, \<^verbatim>\<open>trackAllocation\<close>, \<^verbatim>\<open>trackDeallocation\<close>, \<^verbatim>\<open>invalidate_module_cache\<close>,
  \<^verbatim>\<open>updateModuleCache\<close> and \<^verbatim>\<open>registerThreadName\<close> leave the whole state of the process
  as it is, so nothing is written, queued or reported.
\<close>

theorem no_tracker_no_action:
  assumes "getTracker M s = None"
  shows "trackAllocation M ptr sz func s = s \<and>
         trackDeallocation M ptr sz func s = s \<and>
         invalidate_module_cache M s = s \<and>
         updateModuleCache M s = s \<and>
         registerThreadName M name s = s"
  using assms
  by (simp add: trackAllocation_def trackDeallocation_def invalidate_module_cache_def
      updateModuleCache_def registerThreadName_def)

theorem no_tracker_no_action_witness:
  "getTracker logging_members fresh_process = None \<and>
   trackAllocation logging_members 4096 16 MALLOC fresh_process = fresh_process \<and>
   trackDeallocation logging_members 4096 16 FREE fresh_process = fresh_process \<and>
   invalidate_module_cache logging_members fresh_process = fresh_process \<and>
   updateModuleCache logging_members fresh_process = fresh_process \<and>
   registerThreadName logging_members ''worker'' fresh_process = fresh_process"
proof -
  have h: "getTracker logging_members fresh_process = None"
    by (simp add: logging_members_def getTracker_spec_def fresh_process_def)
  show ?thesis
    using h no_tracker_no_action [OF h, of 4096 16 MALLOC "''worker''"]
      no_tracker_no_action [OF h, of 4096 16 FREE "''worker''"]
    by simp
qed

text \<open>With an instance the calls are forwarded: the guard is the only reason for the no-op.\<close>

lemma tracker_forwards:
  assumes "getTracker M s = Some tracker"
  shows "trackAllocation M ptr sz func s = trackAllocationImpl M tracker ptr sz func s"
    and "trackDeallocation M ptr sz func s = trackDeallocationImpl M tracker ptr sz func s"
    and "invalidate_module_cache M s = invalidate_module_cache_impl M tracker s"
    and "updateModuleCache M s = updateModuleCacheImpl M tracker s"
    and "registerThreadName M name s = registerThreadNameImpl M tracker name s"
  using assms
  by (simp_all add: trackAllocation_def trackDeallocation_def invalidate_module_cache_def
      updateModuleCache_def registerThreadName_def)

subsection \<open>The life cycle of the singleton\<close>

text \<open>
  C6. On the life cycle as the specification describes it: when an instance exists,
  \<^verbatim>\<open>createTracker\<close> reports an error and changes nothing, so the instance pointer still
  holds the one existing instance, \<^verbatim>\<open>getTracker\<close> returns it and the forwarding functions
  still reach it; \<^verbatim>\<open>createTracker\<close> creates an instance only when there is none.
\<close>

theorem createTracker_twice_fails:
  assumes "d_instance p = Some tracker" and "getTracker M = getTracker_spec"
  shows "createTracker rw nt mi ff p = (PyError, p) \<and>
         getTracker_spec (snd (createTracker rw nt mi ff p)) = Some tracker \<and>
         trackAllocation M ptr sz func (snd (createTracker rw nt mi ff p)) =
           trackAllocationImpl M tracker ptr sz func p \<and>
         (fst (createTracker rw' nt' mi' ff' q) = PyNone \<longleftrightarrow> d_instance q = None)"
  using assms
  by (simp add: createTracker_def getTracker_spec_def trackAllocation_def split: option.splits)

lemma createTracker_fresh:
  "createTracker [] True 10 False fresh_process =
     (PyNone,
      \<lparr>d_instance = Some \<lparr>d_writer = [], d_unwind_native_frames = True,
                           d_memory_interval = 10, d_follow_fork = False\<rparr>,
       d_active = True, mirror = (\<lambda>tid. []), sampler_running = True,
       closed_sinks = [], fork_hooks = True\<rparr>)"
  by (simp add: createTracker_def fresh_process_def)

theorem createTracker_twice_fails_witness:
  "d_instance (snd (createTracker [] True 10 False fresh_process)) =
     Some \<lparr>d_writer = [], d_unwind_native_frames = True, d_memory_interval = 10, d_follow_fork = False\<rparr> \<and>
   getTracker logging_members = getTracker_spec \<and>
   createTracker [''second''] False 0 True (snd (createTracker [] True 10 False fresh_process)) =
     (PyError, snd (createTracker [] True 10 False fresh_process)) \<and>
   trackAllocation logging_members 4096 16 MALLOC
     (snd (createTracker [''second''] False 0 True (snd (createTracker [] True 10 False fresh_process)))) =
     \<lparr>d_instance = Some \<lparr>d_writer = [''allocation''], d_unwind_native_frames = True,
                          d_memory_interval = 10, d_follow_fork = False\<rparr>,
      d_active = True, mirror = (\<lambda>tid. []), sampler_running = True,
      closed_sinks = [], fork_hooks = True\<rparr>"
proof -
  let ?p = "snd (createTracker [] True 10 False fresh_process)"
  let ?tr = "\<lparr>d_writer = [], d_unwind_native_frames = True, d_memory_interval = 10, d_follow_fork = False\<rparr>"
  have h1: "d_instance ?p = Some ?tr"
    by (simp add: createTracker_fresh)
  have h2: "getTracker logging_members = getTracker_spec"
    by (simp add: logging_members_def)
  note c = createTracker_twice_fails [OF h1 h2, of "[''second'']" False 0 True 4096 16 MALLOC
      "[]" False 0 False fresh_process]
  have c1: "createTracker [''second''] False 0 True ?p = (PyError, ?p)"
    using c by blast
  have c2: "trackAllocation logging_members 4096 16 MALLOC
      (snd (createTracker [''second''] False 0 True ?p)) =
      trackAllocationImpl logging_members ?tr 4096 16 MALLOC ?p"
    using c by blast
  have "trackAllocationImpl logging_members ?tr 4096 16 MALLOC ?p =
      \<lparr>d_instance = Some \<lparr>d_writer = [''allocation''], d_unwind_native_frames = True,
                          d_memory_interval = 10, d_follow_fork = False\<rparr>,
      d_active = True, mirror = (\<lambda>tid. []), sampler_running = True,
      closed_sinks = [], fork_hooks = True\<rparr>"
    by (simp add: logging_members_def note_call_def createTracker_fresh)
  then show ?thesis
    using h1 h2 c1 c2 by simp
qed

text \<open>
  C7. On the life cycle as the specification describes it: \<^verbatim>\<open>destroyTracker\<close> reports no
  error and leaves no instance, and a second call reports no error and changes nothing.
\<close>

theorem destroyTracker_idempotent:
  "fst (destroyTracker p) = PyNone \<and>
   d_instance (snd (destroyTracker p)) = None \<and>
   destroyTracker (snd (destroyTracker p)) = (PyNone, snd (destroyTracker p))"
  by (simp add: destroyTracker_def split: option.splits)

subsection \<open>The interpreter frame stack\<close>

text \<open>
  C8. On \<^verbatim>\<open>pushFrame\<close> and \<^verbatim>\<open>popFrames\<close> as the specification describes them: when the
  singleton is not active both return false and change nothing; when it is active both
  return true, \<^verbatim>\<open>pushFrame\<close> appends the frame to the sequence of the calling thread,
  \<^verbatim>\<open>popFrames\<close> removes the last \<open>count\<close> frames from it, and the sequences of the other
  threads stay as they are.
\<close>

theorem frame_stack_calls:
  "(if isActive p
    then fst (pushFrame tid frame p) \<and>
         mirror (snd (pushFrame tid frame p)) tid = mirror p tid @ [frame] \<and>
         fst (popFrames tid count p) \<and>
         mirror (snd (popFrames tid count p)) tid =
           take (length (mirror p tid) - unat count) (mirror p tid) \<and>
         (\<forall>other. other \<noteq> tid \<longrightarrow>
            mirror (snd (pushFrame tid frame p)) other = mirror p other \<and>
            mirror (snd (popFrames tid count p)) other = mirror p other)
    else pushFrame tid frame p = (False, p) \<and> popFrames tid count p = (False, p))"
  by (simp add: pushFrame_def popFrames_def)

theorem frame_stack_calls_witness:
  "\<not> isActive fresh_process \<and>
   pushFrame 0 frame_main fresh_process = (False, fresh_process) \<and>
   popFrames 0 1 fresh_process = (False, fresh_process) \<and>
   isActive (snd (createTracker [] True 10 False fresh_process)) \<and>
   fst (pushFrame 0 frame_main (snd (createTracker [] True 10 False fresh_process))) \<and>
   mirror (snd (pushFrame 0 frame_main (snd (createTracker [] True 10 False fresh_process)))) 0 = [frame_main] \<and>
   mirror (snd (pushFrame 0 frame_main (snd (createTracker [] True 10 False fresh_process)))) 1 = [] \<and>
   fst (popFrames 0 1 (snd (pushFrame 0 frame_main (snd (createTracker [] True 10 False fresh_process))))) \<and>
   mirror (snd (popFrames 0 1 (snd (pushFrame 0 frame_main (snd (createTracker [] True 10 False fresh_process)))))) 0 = []"
proof -
  let ?p = "snd (createTracker [] True 10 False fresh_process)"
  let ?q = "snd (pushFrame 0 frame_main ?p)"
  have off: "\<not> isActive fresh_process"
    by (simp add: isActive_def fresh_process_def)
  have on: "isActive ?p"
    by (simp add: isActive_def createTracker_fresh)
  have m: "mirror ?p 0 = []" "mirror ?p 1 = []"
    by (simp_all add: createTracker_fresh)
  have a: "pushFrame 0 frame_main fresh_process = (False, fresh_process)"
      "popFrames 0 1 fresh_process = (False, fresh_process)"
    using frame_stack_calls [of fresh_process 0 frame_main 1] off by simp_all
  have b: "fst (pushFrame 0 frame_main ?p)" "mirror ?q 0 = [frame_main]" "mirror ?q 1 = []"
    using frame_stack_calls [of ?p 0 frame_main 1] on m by simp_all
  have "isActive ?q"
    using on by (simp add: pushFrame_def isActive_def)
  then have c: "fst (popFrames 0 1 ?q)" "mirror (snd (popFrames 0 1 ?q)) 0 = []"
    using frame_stack_calls [of ?q 0 frame_main 1] b(2) by simp_all
  show ?thesis
    using off on a b c by simp
qed

end
